theory Spec2Isabelle
  imports
    Complex_Main
    "HOL-Library.Finite_Map"
    "HOL-Library.Char_ord"
    "HOL-Library.List_Lexorder"
    "HOL-Library.Log_Nat"
begin

chapter \<open>The accountability bot: check-ins, tickets, reminders and persistence\<close>

text \<open>
  The repository holds two variants of one program. \<^verbatim>\<open>src/main.go\<close> is the
  single-project variant: one study channel, one activity record per user, a history
  capped at 30 entries. \<^verbatim>\<open>src/unnamed/part_000\<close> is the multi-project variant:
  activity records per user and channel, tickets, statistics. Both declare the same
  function names, so a name that occurs in both carries the suffix \<open>_sp\<close>
  (single-project) or \<open>_mp\<close> (multi-project); every other name is the source's.

  The global variables \<^verbatim>\<open>config\<close> and \<^verbatim>\<open>database\<close> and the file system
  become explicit arguments and results. Every \<^verbatim>\<open>time.Now()\<close> of the source is
  an argument \<open>now\<close>. An operation is one function from state to state: the mutex
  of the multi-project variant makes its operations atomic, and the calls of the
  single-project variant, which has no lock, are taken one after the other.

  Modelled are the operations on the database, the message handler of the single-project
  variant, the reminder checks, persistence and the two statistics functions. The command
  parsers and the slash-command handlers call these and format replies; they are left out.

  Go maps are finite maps. A nil map reads like an empty one, and the model does not tell
  the two apart. Storing into a nil map would panic, but \<^verbatim>\<open>main\<close> makes the top-level
  map and the operations make every inner map before they store into it; a nil map can
  only come out of a file that was not written by \<^verbatim>\<open>saveDatabase\<close>.
\<close>

section \<open>Time\<close>

text \<open>
  A \<^verbatim>\<open>time.Time\<close> is modelled by its instant, in nanoseconds since the Unix epoch;
  a \<^verbatim>\<open>time.Duration\<close> is a signed 64-bit count of nanoseconds. There is one time
  line: the monotonic clock reading that \<^verbatim>\<open>time.Now()\<close> attaches is taken to agree
  with the wall clock.
\<close>

type_synonym Time = int
type_synonym Duration = int

definition zeroTime :: Time where
  \<comment> \<open>The zero \<^verbatim>\<open>time.Time\<close>: January 1, year 1, 00:00:00 UTC.\<close>
  "zeroTime = - 62135596800 * 1000000000"

definition minDuration :: Duration where
  "minDuration = - (2 ^ 63)"

definition maxDuration :: Duration where
  "maxDuration = 2 ^ 63 - 1"

definition Hour_ns :: Duration where
  \<comment> \<open>\<^verbatim>\<open>time.Hour\<close>\<close>
  "Hour_ns = 3600 * 1000000000"

definition Sub :: "Time \<Rightarrow> Time \<Rightarrow> Duration" where
  \<comment> \<open>\<^verbatim>\<open>t.Sub(u)\<close>: the difference, saturated at the ends of the 64-bit range.\<close>
  "Sub t u =
     (if t - u < minDuration then minDuration
      else if t - u > maxDuration then maxDuration
      else t - u)"

definition Hour :: "int \<Rightarrow> Time \<Rightarrow> int" where
  \<comment> \<open>\<^verbatim>\<open>t.Hour()\<close> for a clock whose zone is \<open>tz\<close> seconds east of UTC.\<close>
  "Hour tz t = ((t div 1000000000 + tz) div 3600) mod 24"

definition Minute :: "int \<Rightarrow> Time \<Rightarrow> int" where
  \<comment> \<open>\<^verbatim>\<open>t.Minute()\<close>, likewise.\<close>
  "Minute tz t = ((t div 1000000000 + tz) div 60) mod 60"

section \<open>Decimal formatting\<close>

fun digits :: "nat \<Rightarrow> string" where
  "digits n =
     (if n < 10 then [''0123456789'' ! n]
      else digits (n div 10) @ [''0123456789'' ! (n mod 10)])"

declare digits.simps [simp del]

definition Sprintf_d :: "int \<Rightarrow> string" where
  \<comment> \<open>\<^verbatim>\<open>fmt.Sprintf("%d", i)\<close>\<close>
  "Sprintf_d i = (if i < 0 then CHR ''-'' # digits (nat (- i)) else digits (nat i))"

text \<open>
  The other direction, as \<^verbatim>\<open>fmt.Sscanf\<close> reads the verb \<^verbatim>\<open>%d\<close> into an
  \<^verbatim>\<open>int\<close>: blanks before the number are skipped (a newline is an error), a sign may
  come first, then the longest run of decimal digits; no digit at all or a value outside 64
  bits is an error. What follows the number is handed back. The model reads bytes, so only
  the ASCII blanks are skipped.
\<close>

definition digitVal :: "char \<Rightarrow> nat" where
  "digitVal c = of_char c - 48"

definition decimal :: "string \<Rightarrow> nat" where
  "decimal s = foldl (\<lambda>a c. 10 * a + digitVal c) 0 s"

definition isDigit :: "char \<Rightarrow> bool" where
  "isDigit c = (c \<in> set ''0123456789'')"

definition isBlank :: "char \<Rightarrow> bool" where
  \<comment> \<open>space, tab, vertical tab, form feed, carriage return\<close>
  "isBlank c = (c \<in> set [CHR 0x20, CHR 0x09, CHR 0x0B, CHR 0x0C, CHR 0x0D])"

definition scanNumber :: "bool \<Rightarrow> string \<Rightarrow> (int \<times> string) option" where
  \<comment> \<open>The digits after the optional sign; \<open>neg\<close> says that the sign was a minus.\<close>
  "scanNumber neg s =
     (let tok = takeWhile isDigit s;
          rest = dropWhile isDigit s;
          v = (if neg then - int (decimal tok) else int (decimal tok))
      in if tok = [] then None
         else if v < - (2 ^ 63) \<or> 2 ^ 63 \<le> v then None
         else Some (v, rest))"

definition scanInt :: "string \<Rightarrow> (int \<times> string) option" where
  "scanInt s =
     (case dropWhile isBlank s of
        [] \<Rightarrow> None
      | c # cs \<Rightarrow>
          if c = CHR 0x0A then None
          else if c = CHR ''-'' then scanNumber True cs
          else if c = CHR ''+'' then scanNumber False cs
          else scanNumber False (c # cs))"

definition Sscanf_d :: "string \<Rightarrow> int option" where
  \<comment> \<open>\<^verbatim>\<open>fmt.Sscanf(s, "%d", &x)\<close>: the value stored in \<open>x\<close>, or \<open>None\<close> for an error.\<close>
  "Sscanf_d s = map_option fst (scanInt s)"

definition Sscanf_d_colon_d :: "string \<Rightarrow> (int \<times> int) option" where
  \<comment> \<open>\<^verbatim>\<open>fmt.Sscanf(s, "%d:%d", &x, &y)\<close>: both values, or \<open>None\<close> when it returns an error.\<close>
  "Sscanf_d_colon_d s =
     (case scanInt s of
        None \<Rightarrow> None
      | Some (x, rest) \<Rightarrow>
          (case rest of
             [] \<Rightarrow> None
           | c # cs \<Rightarrow>
               if c \<noteq> CHR '':'' then None
               else (case scanInt cs of None \<Rightarrow> None | Some (y, rest') \<Rightarrow> Some (x, y))))"

fun Split :: "char \<Rightarrow> string \<Rightarrow> string list" where
  \<comment> \<open>\<^verbatim>\<open>strings.Split(s, sep)\<close> for a separator of one byte\<close>
  "Split sep [] = [[]]"
| "Split sep (c # cs) =
     (if c = sep then [] # Split sep cs
      else (case Split sep cs of [] \<Rightarrow> [[c]] | p # ps \<Rightarrow> (c # p) # ps))"

definition wrap64 :: "int \<Rightarrow> int" where
  \<comment> \<open>The result of 64-bit signed arithmetic: the exact result, wrapped around.\<close>
  "wrap64 x = (x + 2 ^ 63) mod 2 ^ 64 - 2 ^ 63"

section \<open>Floating point\<close>

text \<open>
  A finite \<^verbatim>\<open>float64\<close> is a rational number, and every operation rounds its exact
  result to the nearest binary64 value, ties to even: 53 bits of significand, the
  exponent of the last place never below \<open>-1074\<close> (the subnormal range). Infinities and
  NaN are not modelled: no operation below divides by zero or leaves the finite range
  when its arguments are finite.
\<close>

type_synonym float64 = rat

definition ilog2 :: "rat \<Rightarrow> int" where
  \<comment> \<open>For \<open>0 < x\<close>, the \<open>k\<close> with \<open>2 powi k \<le> x < 2 powi (k + 1)\<close>.\<close>
  "ilog2 x =
     (let (p, q) = quotient_of x; d = bitlen p - bitlen q
      in if 2 powi d \<le> x then d else d - 1)"

definition roundeven :: "rat \<Rightarrow> int" where
  "roundeven q =
     (let n = \<lfloor>q\<rfloor>; r = q - of_int n
      in if r < 1 / 2 then n else if 1 / 2 < r then n + 1 else if even n then n else n + 1)"

definition expo :: "rat \<Rightarrow> int" where
  \<comment> \<open>The exponent of the unit in the last place of the binade of \<open>x\<close>.\<close>
  "expo x = max (ilog2 \<bar>x\<bar> - 52) (- 1074)"

definition round64 :: "rat \<Rightarrow> float64" where
  "round64 x =
     (if x = 0 then 0 else of_int (roundeven (x / 2 powi (expo x))) * 2 powi (expo x))"

definition float64_of_int :: "int \<Rightarrow> float64" where
  \<comment> \<open>The conversion \<^verbatim>\<open>float64(i)\<close>.\<close>
  "float64_of_int i = round64 (of_int i)"

definition fadd :: "float64 \<Rightarrow> float64 \<Rightarrow> float64" where
  "fadd x y = round64 (x + y)"

definition fmul :: "float64 \<Rightarrow> float64 \<Rightarrow> float64" where
  "fmul x y = round64 (x * y)"

definition fdiv :: "float64 \<Rightarrow> float64 \<Rightarrow> float64" where
  \<comment> \<open>Only used with a divisor that is not zero.\<close>
  "fdiv x y = round64 (x / y)"

definition int_of_float64 :: "float64 \<Rightarrow> int" where
  \<comment> \<open>The conversion \<^verbatim>\<open>int(x)\<close>: the fraction is discarded, towards zero.\<close>
  "int_of_float64 x = (if 0 \<le> x then \<lfloor>x\<rfloor> else \<lceil>x\<rceil>)"

definition quo :: "int \<Rightarrow> int \<Rightarrow> int" where
  \<comment> \<open>Go's integer \<^verbatim>\<open>/\<close>, truncated towards zero.\<close>
  "quo a b = sgn a * sgn b * (\<bar>a\<bar> div \<bar>b\<bar>)"

definition rem :: "int \<Rightarrow> int \<Rightarrow> int" where
  \<comment> \<open>Go's integer \<^verbatim>\<open>%\<close>: the sign of the dividend.\<close>
  "rem a b = a - b * quo a b"

definition Hours :: "Duration \<Rightarrow> float64" where
  \<comment> \<open>\<^verbatim>\<open>d.Hours()\<close> of package time: \<^verbatim>\<open>float64(d / Hour) + float64(d % Hour) / (60*60*1e9)\<close>.\<close>
  "Hours d =
     fadd (float64_of_int (quo d Hour_ns)) (fdiv (float64_of_int (rem d Hour_ns)) 3600000000000)"

section \<open>The persisted document\<close>

text \<open>
  \<^verbatim>\<open>encoding/json\<close> is a library, not code of this repository. What the
  repository decides is the shape of the document: which fields are written, under which
  keys, nested how. The model therefore stops at the JSON document as a tree, held as the
  decoder reads it: a \<open>JString\<close> is the text that a JSON string denotes, and the leaf
  \<open>JTime\<close> stands for a JSON string in RFC 3339 format with nanoseconds and keeps
  the instant it denotes.

  Two things that the encoder does to the values of this program show in the document,
  and both are modelled. A Go string is a sequence of bytes, and the encoder writes every
  byte that is not part of a well-formed UTF-8 sequence as U+FFFD, so that such a string
  is not read back as it was. And \<^verbatim>\<open>Time.MarshalJSON\<close> refuses a time whose year
  is not in 0..9999; \<^verbatim>\<open>json.MarshalIndent\<close> then returns an error and no document.
\<close>

datatype json =
    JNull
  | JString string
  | JTime Time
  | JArray "json list"
  | JObject "(string \<times> json) list"

subsection \<open>Strings\<close>

text \<open>
  The tables \<^verbatim>\<open>first\<close> and \<^verbatim>\<open>acceptRanges\<close> of package
  \<^verbatim>\<open>unicode/utf8\<close>: for a byte that starts a sequence of more than one byte, the
  width of the sequence and the least and greatest second byte.
\<close>

definition leading :: "nat \<Rightarrow> (nat \<times> nat \<times> nat) option" where
  "leading b =
     (if 0xC2 \<le> b \<and> b \<le> 0xDF then Some (2, 0x80, 0xBF)
      else if b = 0xE0 then Some (3, 0xA0, 0xBF)
      else if 0xE1 \<le> b \<and> b \<le> 0xEC then Some (3, 0x80, 0xBF)
      else if b = 0xED then Some (3, 0x80, 0x9F)
      else if 0xEE \<le> b \<and> b \<le> 0xEF then Some (3, 0x80, 0xBF)
      else if b = 0xF0 then Some (4, 0x90, 0xBF)
      else if 0xF1 \<le> b \<and> b \<le> 0xF3 then Some (4, 0x80, 0xBF)
      else if b = 0xF4 then Some (4, 0x80, 0x8F)
      else None)"

definition byte :: "string \<Rightarrow> nat \<Rightarrow> nat" where
  "byte s i = of_char (s ! i)"

definition continuation :: "nat \<Rightarrow> bool" where
  "continuation b = (0x80 \<le> b \<and> b \<le> 0xBF)"

definition DecodeRuneInString :: "string \<Rightarrow> nat option" where
  \<comment> \<open>The width of the well-formed sequence at the head of a string that is not empty;
    \<open>None\<close> where Go returns \<^verbatim>\<open>(RuneError, 1)\<close>.\<close>
  "DecodeRuneInString s =
     (if byte s 0 < 0x80 then Some 1
      else
        (case leading (byte s 0) of
           None \<Rightarrow> None
         | Some (sz, lo, hi) \<Rightarrow>
             if length s < sz then None
             else if byte s 1 < lo \<or> hi < byte s 1 then None
             else if sz \<le> 2 then Some 2
             else if \<not> continuation (byte s 2) then None
             else if sz \<le> 3 then Some 3
             else if \<not> continuation (byte s 3) then None
             else Some 4))"

definition RuneError :: string where
  \<comment> \<open>U+FFFD in UTF-8\<close>
  "RuneError = [CHR 0xEF, CHR 0xBF, CHR 0xBD]"

text \<open>
  The text of a Go string in a document: the loop of \<^verbatim>\<open>appendString\<close> of
  \<^verbatim>\<open>encoding/json\<close>, which copies a well-formed sequence and writes
  the escape of U+FFFD for a byte where \<^verbatim>\<open>DecodeRuneInString\<close> returns
  \<^verbatim>\<open>(RuneError, 1)\<close>, going on at the next byte. The escapes it writes for quotes,
  control characters and the like are undone by the decoder and do not show here.
\<close>

function jsonString :: "string \<Rightarrow> string" where
  "jsonString [] = []"
| "jsonString (c # cs) =
     (case DecodeRuneInString (c # cs) of
        None \<Rightarrow> RuneError @ jsonString cs
      | Some n \<Rightarrow> c # take (n - 1) cs @ jsonString (drop (n - 1) cs))"
  by pat_completeness auto

termination
  by (relation "measure length") auto

subsection \<open>Times\<close>

text \<open>
  \<^verbatim>\<open>Time.MarshalJSON\<close> returns an error for a year outside 0..9999. Go reads the
  year in the zone of the time; the model keeps instants only and reads it in UTC. The
  text that is written has the nanoseconds and the zone offset in hours and minutes, and
  denotes the same instant (zone offsets are whole minutes for every clock reading of
  today and for every time that was read from a file).
\<close>

definition year0 :: Time where
  \<comment> \<open>0000-01-01T00:00:00Z\<close>
  "year0 = - 62167219200 * 1000000000"

definition year10000 :: Time where
  \<comment> \<open>10000-01-01T00:00:00Z\<close>
  "year10000 = 253402300800 * 1000000000"

definition marshal_Time :: "Time \<Rightarrow> json option" where
  "marshal_Time t = (if year0 \<le> t \<and> t < year10000 then Some (JTime t) else None)"

definition marshal_Times :: "Time list \<Rightarrow> json option" where
  \<comment> \<open>A slice of times. (A nil slice is written as \<^verbatim>\<open>null\<close>, which is read back as
    the same empty list.)\<close>
  "marshal_Times ts = map_option JArray (those (map marshal_Time ts))"

subsection \<open>Files\<close>

text \<open>
  A file holds either a document or bytes that are no JSON text. A path of the file
  system names a file, a file that cannot be written, or something that can be neither
  read nor written as a file (a directory, a name in a directory that does not exist); at
  any other path a file can be made. \<^verbatim>\<open>os.WriteFile\<close> and \<^verbatim>\<open>os.ReadFile\<close>
  return an error for the empty name. A write that fails leaves the file system as it was.
\<close>

datatype content = NotJSON | Document json

datatype entry = File content | ReadOnly content | Blocked

type_synonym files = "(string, entry) fmap"

definition writable :: "files \<Rightarrow> string \<Rightarrow> bool" where
  "writable fs name =
     (name \<noteq> [] \<and>
      (case fmlookup fs name of
         None \<Rightarrow> True
       | Some (File c) \<Rightarrow> True
       | Some (ReadOnly c) \<Rightarrow> False
       | Some Blocked \<Rightarrow> False))"

definition WriteFile :: "string \<Rightarrow> content \<Rightarrow> files \<Rightarrow> files option" where
  \<comment> \<open>\<open>None\<close>: \<^verbatim>\<open>os.WriteFile\<close> returns an error\<close>
  "WriteFile name c fs = (if writable fs name then Some (fmupd name (File c) fs) else None)"


subsection \<open>Decoding and encoding\<close>



fun unmarshal_Time :: "json \<Rightarrow> Time option" where
  "unmarshal_Time (JTime t) = Some t"
| "unmarshal_Time JNull = Some zeroTime"
| "unmarshal_Time j = None"

fun unmarshal_Times :: "json \<Rightarrow> Time list option" where
  "unmarshal_Times (JArray js) = those (map unmarshal_Time js)"
| "unmarshal_Times JNull = Some []"
| "unmarshal_Times j = None"


text \<open>
  A Go map becomes a JSON object. The encoder sorts the keys as they are in the map and
  then writes each as a JSON string, so that two keys which differ in ill-formed bytes
  only are written as the same key, in the order of the map's keys. The encoding of a map
  fails when that of one of its values does.
\<close>

definition marshal_map :: "('v \<Rightarrow> json option) \<Rightarrow> (string, 'v) fmap \<Rightarrow> json option" where
  "marshal_map f m =
     map_option JObject
       (those (map (\<lambda>(k, v). map_option (Pair (jsonString k)) (f v)) (sorted_list_of_fmap m)))"


section \<open>The single-project variant (src/main.go)\<close>

subsection \<open>Data\<close>

record Config_sp =
  Token_sp :: string
  StudyChannelID :: string
  DatabasePath_sp :: string
  ReminderTime_sp :: string
  CheckInFrequency_sp :: int

record UserActivity_sp =
  UserID :: string
  Username :: string
  LastCheckIn_sp :: Time
  CheckIns_sp :: "Time list"

type_synonym Database_sp = "(string, UserActivity_sp) fmap"

text \<open>The state the handlers share: the global \<^verbatim>\<open>database\<close> and the file system.\<close>

record World_sp =
  database_sp :: Database_sp
  files_sp :: files

subsection \<open>Persistence\<close>

definition marshal_UserActivity_sp :: "UserActivity_sp \<Rightarrow> json option" where
  "marshal_UserActivity_sp a =
     (case (marshal_Time (LastCheckIn_sp a), marshal_Times (CheckIns_sp a)) of
        (Some lastCheckIn, Some checkIns) \<Rightarrow>
          Some (JObject
            [(''userID'', JString (jsonString (UserID a))),
             (''username'', JString (jsonString (Username a))),
             (''lastCheckIn'', lastCheckIn),
             (''checkIns'', checkIns)])
      | _ \<Rightarrow> None)"

definition marshal_Database_sp :: "Database_sp \<Rightarrow> json option" where
  "marshal_Database_sp db =
     map_option (\<lambda>j. JObject [(''userActivities'', j)]) (marshal_map marshal_UserActivity_sp db)"

text \<open>
  \<^verbatim>\<open>saveDatabase\<close> returns without writing when \<^verbatim>\<open>json.MarshalIndent\<close> returns
  an error, and it only logs an error of \<^verbatim>\<open>os.WriteFile\<close>: in both cases the file
  system stays as it was, and the caller is not told.
\<close>

definition saveDatabase_sp :: "Config_sp \<Rightarrow> World_sp \<Rightarrow> World_sp" where
  "saveDatabase_sp cfg w =
     (case marshal_Database_sp (database_sp w) of
        None \<Rightarrow> w
      | Some data \<Rightarrow>
          (case WriteFile (DatabasePath_sp cfg) (Document data) (files_sp w) of
             None \<Rightarrow> w
           | Some fs \<Rightarrow> w\<lparr>files_sp := fs\<rparr>))"


subsection \<open>Recording a check-in\<close>

definition recordCheckIn_sp :: "Config_sp \<Rightarrow> Time \<Rightarrow> string \<Rightarrow> string \<Rightarrow> World_sp \<Rightarrow> World_sp" where
  "recordCheckIn_sp cfg now userID username w =
     (let activity =
            (case fmlookup (database_sp w) userID of
               None \<Rightarrow>
                 \<lparr>UserID = userID, Username = username, LastCheckIn_sp = zeroTime, CheckIns_sp = []\<rparr>
             | Some a \<Rightarrow> a);
          activity = activity\<lparr>Username := username\<rparr>;
          activity = activity\<lparr>LastCheckIn_sp := now\<rparr>;
          activity = activity\<lparr>CheckIns_sp := CheckIns_sp activity @ [now]\<rparr>;
          activity =
            (if length (CheckIns_sp activity) > 30
             then activity\<lparr>CheckIns_sp :=
                    drop (length (CheckIns_sp activity) - 30) (CheckIns_sp activity)\<rparr>
             else activity)
      in saveDatabase_sp cfg (w\<lparr>database_sp := fmupd userID activity (database_sp w)\<rparr>))"

text \<open>
  A sequence of calls of \<^verbatim>\<open>recordCheckIn\<close>, each with the clock reading it gets, the
  user and the user name; the calls may be for any users, in any order.
\<close>

record CheckInCall =
  call_now :: Time
  call_userID :: string
  call_username :: string

definition recordCheckIns_sp :: "Config_sp \<Rightarrow> CheckInCall list \<Rightarrow> World_sp \<Rightarrow> World_sp" where
  "recordCheckIns_sp cfg calls w =
     foldl (\<lambda>w c. recordCheckIn_sp cfg (call_now c) (call_userID c) (call_username c) w) w calls"

definition history_sp :: "World_sp \<Rightarrow> string \<Rightarrow> Time list option" where
  "history_sp w u = map_option CheckIns_sp (fmlookup (database_sp w) u)"

subsection \<open>Loading\<close>



subsection \<open>The message handler\<close>

text \<open>
  What a handler sends to the chat gateway is its second result, in the order of the calls.
  Lines written to the log are left out.
\<close>

datatype Outbound =
    MessageReactionAdd string string string
  | ChannelMessageSend string string

record Message =
  MessageID :: string
  ChannelID :: string
  Content :: string
  AuthorID :: string
  AuthorUsername :: string

definition checkMark :: string where
  \<comment> \<open>The UTF-8 bytes of U+2705, the check mark of the acknowledgment.\<close>
  "checkMark = [CHR 0xE2, CHR 0x9C, CHR 0x85]"

definition messageCreate_sp ::
  "Config_sp \<Rightarrow> string \<Rightarrow> Time \<Rightarrow> Message \<Rightarrow> World_sp \<Rightarrow> Outbound list \<times> World_sp" where
  \<comment> \<open>\<open>botID\<close> is \<^verbatim>\<open>s.State.User.ID\<close>, the bot's own user.\<close>
  "messageCreate_sp cfg botID now m w =
     (if AuthorID m = botID then ([], w)
      else if ChannelID m = StudyChannelID cfg \<and> AuthorUsername m = ''kevin.you''
      then ([MessageReactionAdd (ChannelID m) (MessageID m) checkMark],
            recordCheckIn_sp cfg now (AuthorID m) (AuthorUsername m) w)
      else ([], w))"

subsection \<open>Reminders\<close>

definition books :: string where
  \<comment> \<open>The UTF-8 bytes of U+1F4DA, the books at the head of a reminder.\<close>
  "books = [CHR 0xF0, CHR 0x9F, CHR 0x93, CHR 0x9A]"

definition sendReminder :: "Config_sp \<Rightarrow> string \<Rightarrow> string \<Rightarrow> int \<Rightarrow> Outbound" where
  "sendReminder cfg userID username hoursSinceLastCheckIn =
     ChannelMessageSend (StudyChannelID cfg)
       (books @ '' Hey <@'' @ userID @ ''>! It's been '' @ Sprintf_d hoursSinceLastCheckIn @
        '' hours since your last study check-in. How's your progress going today?'')"

text \<open>
  The loop over the users: the arguments of the calls of \<^verbatim>\<open>sendReminder\<close> it makes.
  Go leaves the order of a map iteration open; the model goes through the users in key order.
\<close>

definition overdueUsers :: "Config_sp \<Rightarrow> Time \<Rightarrow> Database_sp \<Rightarrow> (string \<times> string \<times> int) list" where
  "overdueUsers cfg now db =
     map (\<lambda>(userID, activity).
            (userID, Username activity,
             int_of_float64 (Hours (Sub now (LastCheckIn_sp activity)))))
       (filter (\<lambda>(userID, activity).
                  Hours (Sub now (LastCheckIn_sp activity)) >
                    float64_of_int (CheckInFrequency_sp cfg))
          (sorted_list_of_fmap db))"

definition checkAndSendReminders :: "Config_sp \<Rightarrow> int \<Rightarrow> Time \<Rightarrow> World_sp \<Rightarrow> Outbound list" where
  \<comment> \<open>\<open>tz\<close> is the offset of the local zone at \<open>now\<close>, in seconds east of UTC.\<close>
  "checkAndSendReminders cfg tz now w =
     (case Sscanf_d_colon_d (ReminderTime_sp cfg) of
        None \<Rightarrow> []
      | Some (reminderHour, reminderMinute) \<Rightarrow>
          if Hour tz now \<noteq> reminderHour \<or> Minute tz now < reminderMinute \<or>
             Minute tz now > wrap64 (reminderMinute + 5)
          then []
          else map (\<lambda>(userID, username, hours). sendReminder cfg userID username hours)
                 (overdueUsers cfg now (database_sp w)))"

section \<open>The multi-project variant (src/unnamed/part_000)\<close>

subsection \<open>Data\<close>

record Config_mp =
  Token_mp :: string
  TrackedChannels :: "(string, string) fmap"
  ReminderChannelID :: string
  CheckInFrequency_mp :: Duration
  ReminderTime_mp :: string
  DatabasePath_mp :: string

text \<open>
  \<^verbatim>\<open>Ticket\<close> and \<^verbatim>\<open>UserActivity\<close> both have a field \<^verbatim>\<open>ProjectName\<close>; the
  ticket's is \<open>ProjectName_tk\<close> here.
\<close>

record Ticket =
  ID :: string
  Title :: string
  Description :: string
  Status :: string
  CreatedAt :: Time
  CompletedAt :: Time
  ProjectName_tk :: string

record UserActivity_mp =
  LastCheckIn_mp :: Time
  CheckIns_mp :: "Time list"
  Tickets :: "(string, Ticket) fmap"
  ProjectName :: string

type_synonym Database_mp = "(string, (string, UserActivity_mp) fmap) fmap"

record World_mp =
  database_mp :: Database_mp
  files_mp :: files

text \<open>
  Reading a Go map at a key it does not hold gives the zero value of the element type, and
  reading a nil map gives the same. \<open>index1\<close> is \<^verbatim>\<open>database.UserActivities[userID]\<close>,
  \<open>index2\<close> is \<^verbatim>\<open>database.UserActivities[userID][channelID]\<close> as an expression, and
  \<open>store2\<close> is the assignment to it (the source makes the user's map first wherever
  it assigns).
\<close>

definition zeroUserActivity_mp :: UserActivity_mp where
  "zeroUserActivity_mp =
     \<lparr>LastCheckIn_mp = zeroTime, CheckIns_mp = [], Tickets = fmempty, ProjectName = []\<rparr>"

definition index1 :: "Database_mp \<Rightarrow> string \<Rightarrow> (string, UserActivity_mp) fmap" where
  "index1 db userID = (case fmlookup db userID of None \<Rightarrow> fmempty | Some m \<Rightarrow> m)"

definition index2 :: "Database_mp \<Rightarrow> string \<Rightarrow> string \<Rightarrow> UserActivity_mp" where
  "index2 db userID channelID =
     (case fmlookup (index1 db userID) channelID of
        None \<Rightarrow> zeroUserActivity_mp
      | Some a \<Rightarrow> a)"

definition store2 :: "string \<Rightarrow> string \<Rightarrow> UserActivity_mp \<Rightarrow> Database_mp \<Rightarrow> Database_mp" where
  "store2 userID channelID a db = fmupd userID (fmupd channelID a (index1 db userID)) db"

definition len :: "(string, 'v) fmap \<Rightarrow> int" where
  \<comment> \<open>\<^verbatim>\<open>len(m)\<close> of a map\<close>
  "len m = int (fcard (fmdom m))"

subsection \<open>Persistence\<close>

definition marshal_Ticket :: "Ticket \<Rightarrow> json option" where
  "marshal_Ticket t =
     (case (marshal_Time (CreatedAt t), marshal_Time (CompletedAt t)) of
        (Some createdAt, Some completedAt) \<Rightarrow>
          Some (JObject
            [(''id'', JString (jsonString (ID t))),
             (''title'', JString (jsonString (Title t))),
             (''description'', JString (jsonString (Description t))),
             (''status'', JString (jsonString (Status t))),
             (''createdAt'', createdAt),
             (''completedAt'', completedAt),
             (''projectName'', JString (jsonString (ProjectName_tk t)))])
      | _ \<Rightarrow> None)"

definition marshal_UserActivity_mp :: "UserActivity_mp \<Rightarrow> json option" where
  "marshal_UserActivity_mp a =
     (case (marshal_Time (LastCheckIn_mp a), marshal_Times (CheckIns_mp a),
            marshal_map marshal_Ticket (Tickets a)) of
        (Some lastCheckIn, Some checkIns, Some tickets) \<Rightarrow>
          Some (JObject
            [(''lastCheckIn'', lastCheckIn),
             (''checkIns'', checkIns),
             (''tickets'', tickets),
             (''projectName'', JString (jsonString (ProjectName a)))])
      | _ \<Rightarrow> None)"

definition marshal_Database_mp :: "Database_mp \<Rightarrow> json option" where
  \<comment> \<open>The copy \<^verbatim>\<open>dbCopy\<close> without the mutex: one field, \<^verbatim>\<open>userActivities\<close>.\<close>
  "marshal_Database_mp db =
     map_option (\<lambda>j. JObject [(''userActivities'', j)])
       (marshal_map (marshal_map marshal_UserActivity_mp) db)"

text \<open>
  As in the single-project variant: no document when \<^verbatim>\<open>json.MarshalIndent\<close> returns
  an error, no change when \<^verbatim>\<open>os.WriteFile\<close> does. \<^verbatim>\<open>main\<close> fills in a default
  path only when there is no \<^verbatim>\<open>config.json\<close>; a configuration file without
  \<^verbatim>\<open>databasePath\<close> leaves the path empty, and then no save writes anything.
\<close>

definition saveDatabase_mp :: "Config_mp \<Rightarrow> World_mp \<Rightarrow> World_mp" where
  "saveDatabase_mp cfg w =
     (case marshal_Database_mp (database_mp w) of
        None \<Rightarrow> w
      | Some data \<Rightarrow>
          (case WriteFile (DatabasePath_mp cfg) (Document data) (files_mp w) of
             None \<Rightarrow> w
           | Some fs \<Rightarrow> w\<lparr>files_mp := fs\<rparr>))"


subsection \<open>Tickets\<close>

text \<open>
  \<^verbatim>\<open>createTicket\<close> reads the clock twice: \<open>now0\<close> for the activity record it makes when
  the user has none for the channel, \<open>now\<close> for the ticket. The map \<^verbatim>\<open>Tickets\<close> of an
  activity is reached from that activity only, so updating it in place is updating the
  field.
\<close>

definition createTicket ::
  "Config_mp \<Rightarrow> Time \<Rightarrow> Time \<Rightarrow> string \<Rightarrow> string \<Rightarrow> string \<Rightarrow> string \<Rightarrow> World_mp \<Rightarrow> string \<times> World_mp" where
  "createTicket cfg now0 now userID channelID title description w =
     (let db = database_mp w;
          db = (case fmlookup db userID of None \<Rightarrow> fmupd userID fmempty db | Some m \<Rightarrow> db);
          db =
            (case fmlookup (index1 db userID) channelID of
               None \<Rightarrow>
                 (let projectName =
                        (case fmlookup (TrackedChannels cfg) channelID of None \<Rightarrow> [] | Some p \<Rightarrow> p)
                  in store2 userID channelID
                       \<lparr>LastCheckIn_mp = now0, CheckIns_mp = [], Tickets = fmempty,
                        ProjectName = projectName\<rparr> db)
             | Some a \<Rightarrow> db);
          ticketID = Sprintf_d (len (Tickets (index2 db userID channelID)) + 1);
          userActivity = index2 db userID channelID;
          userActivity =
            userActivity\<lparr>Tickets :=
              fmupd ticketID
                \<lparr>ID = ticketID, Title = title, Description = description, Status = ''open'',
                 CreatedAt = now, CompletedAt = zeroTime,
                 ProjectName_tk = ProjectName userActivity\<rparr>
                (Tickets userActivity)\<rparr>;
          db = store2 userID channelID userActivity db
      in (ticketID, saveDatabase_mp cfg (w\<lparr>database_mp := db\<rparr>)))"

definition completeTicket ::
  "Config_mp \<Rightarrow> Time \<Rightarrow> string \<Rightarrow> string \<Rightarrow> string \<Rightarrow> World_mp \<Rightarrow> bool \<times> World_mp" where
  "completeTicket cfg now userID channelID ticketID w =
     (case fmlookup (database_mp w) userID of
        None \<Rightarrow> (False, w)
      | Some userActivities \<Rightarrow>
          (case fmlookup userActivities channelID of
             None \<Rightarrow> (False, w)
           | Some activity \<Rightarrow>
               (case fmlookup (Tickets activity) ticketID of
                  None \<Rightarrow> (False, w)
                | Some ticket \<Rightarrow>
                    (let ticket = ticket\<lparr>Status := ''done''\<rparr>;
                         ticket = ticket\<lparr>CompletedAt := now\<rparr>;
                         activity = activity\<lparr>Tickets := fmupd ticketID ticket (Tickets activity)\<rparr>;
                         db = store2 userID channelID activity (database_mp w)
                     in (True, saveDatabase_mp cfg (w\<lparr>database_mp := db\<rparr>))))))"

definition listTickets :: "World_mp \<Rightarrow> string \<Rightarrow> string \<Rightarrow> Ticket list" where
  \<comment> \<open>Go leaves the order of a map iteration open; the model lists in key order.\<close>
  "listTickets w userID channelID =
     (case fmlookup (database_mp w) userID of
        None \<Rightarrow> []
      | Some userActivities \<Rightarrow>
          (case fmlookup userActivities channelID of
             None \<Rightarrow> []
           | Some activity \<Rightarrow> map snd (sorted_list_of_fmap (Tickets activity))))"

subsection \<open>Recording a check-in\<close>

definition recordCheckIn_mp ::
  "Config_mp \<Rightarrow> Time \<Rightarrow> string \<Rightarrow> string \<Rightarrow> string \<Rightarrow> World_mp \<Rightarrow> World_mp" where
  "recordCheckIn_mp cfg now userID channelID projectName w =
     (let db = database_mp w;
          db = (case fmlookup db userID of None \<Rightarrow> fmupd userID fmempty db | Some m \<Rightarrow> db);
          activity =
            (case fmlookup (index1 db userID) channelID of
               None \<Rightarrow>
                 \<lparr>LastCheckIn_mp = zeroTime, CheckIns_mp = [], Tickets = fmempty,
                  ProjectName = projectName\<rparr>
             | Some a \<Rightarrow> a);
          activity = activity\<lparr>LastCheckIn_mp := now\<rparr>;
          activity = activity\<lparr>CheckIns_mp := CheckIns_mp activity @ [now]\<rparr>;
          db = store2 userID channelID activity db
      in saveDatabase_mp cfg (w\<lparr>database_mp := db\<rparr>))"

subsection \<open>Sequences of operations\<close>

text \<open>
  The four operations on the ticket database, with the arguments and clock readings of
  one call each, and what a call returns.
\<close>

datatype Op =
    CreateTicket Time Time string string string string
  | CompleteTicket Time string string string
  | RecordCheckIn Time string string string
  | ListTickets string string

datatype Result =
    TicketID string
  | Completed bool
  | Recorded
  | Listed "Ticket list"

fun step :: "Config_mp \<Rightarrow> Op \<Rightarrow> World_mp \<Rightarrow> Result \<times> World_mp" where
  "step cfg (CreateTicket now0 now userID channelID title description) w =
     (case createTicket cfg now0 now userID channelID title description w of
        (ticketID, w') \<Rightarrow> (TicketID ticketID, w'))"
| "step cfg (CompleteTicket now userID channelID ticketID) w =
     (case completeTicket cfg now userID channelID ticketID w of
        (ok, w') \<Rightarrow> (Completed ok, w'))"
| "step cfg (RecordCheckIn now userID channelID projectName) w =
     (Recorded, recordCheckIn_mp cfg now userID channelID projectName w)"
| "step cfg (ListTickets userID channelID) w = (Listed (listTickets w userID channelID), w)"

fun run :: "Config_mp \<Rightarrow> Op list \<Rightarrow> World_mp \<Rightarrow> Result list \<times> World_mp" where
  "run cfg [] w = ([], w)"
| "run cfg (op # ops) w =
     (case step cfg op w of
        (r, w') \<Rightarrow> (case run cfg ops w' of (rs, w'') \<Rightarrow> (r # rs, w'')))"

definition lookupTicket :: "World_mp \<Rightarrow> string \<Rightarrow> string \<Rightarrow> string \<Rightarrow> Ticket option" where
  "lookupTicket w userID channelID ticketID =
     (case fmlookup (database_mp w) userID of
        None \<Rightarrow> None
      | Some userActivities \<Rightarrow>
          (case fmlookup userActivities channelID of
             None \<Rightarrow> None
           | Some activity \<Rightarrow> fmlookup (Tickets activity) ticketID))"

subsection \<open>Loading\<close>





subsection \<open>Reminders\<close>

text \<open>
  The records the loops of \<^verbatim>\<open>sendDailyReminders\<close> send a reminder for, each with its
  user and channel. Go leaves the order of a map iteration open; the model goes through
  users and channels in key order.
\<close>

definition overdueRecords ::
  "Config_mp \<Rightarrow> Time \<Rightarrow> Database_mp \<Rightarrow> (string \<times> string \<times> UserActivity_mp) list" where
  "overdueRecords cfg now db =
     filter (\<lambda>(userID, channelID, activity).
               Sub now (LastCheckIn_mp activity) > wrap64 (CheckInFrequency_mp cfg * Hour_ns))
       (concat
          (map (\<lambda>(userID, userActivities).
                  map (\<lambda>(channelID, activity). (userID, channelID, activity))
                    (sorted_list_of_fmap userActivities))
             (sorted_list_of_fmap db)))"

definition sendDailyReminders :: "Config_mp \<Rightarrow> Time \<Rightarrow> World_mp \<Rightarrow> Outbound list" where
  "sendDailyReminders cfg now w =
     (if ReminderChannelID cfg = [] then []
      else map (\<lambda>(userID, channelID, activity).
                  ChannelMessageSend (ReminderChannelID cfg)
                    (''<@'' @ userID @ ''>'' @ '', you haven't checked in on project **'' @
                     ProjectName activity @ ''** for '' @
                     Sprintf_d (int_of_float64 (Hours (Sub now (LastCheckIn_mp activity)))) @
                     '' hours. Remember to update your progress!''))
             (overdueRecords cfg now (database_mp w)))"

text \<open>
  One round of the loop of \<^verbatim>\<open>reminderRoutine\<close>, which the ticker starts once an hour.
  \<open>now\<close> is the clock reading of the loop, \<open>now'\<close> the later one of
  \<^verbatim>\<open>sendDailyReminders\<close>.
\<close>

definition reminderRoutine_tick ::
  "Config_mp \<Rightarrow> int \<Rightarrow> Time \<Rightarrow> Time \<Rightarrow> World_mp \<Rightarrow> Outbound list" where
  "reminderRoutine_tick cfg tz now now' w =
     (let reminderTimeParts = Split (CHR '':'') (ReminderTime_mp cfg)
      in if length reminderTimeParts \<noteq> 2 then []
         else
           (let reminderHour =
                  (case Sscanf_d (reminderTimeParts ! 0) of None \<Rightarrow> 9 | Some h \<Rightarrow> h);
                reminderMinute =
                  (case Sscanf_d (reminderTimeParts ! 1) of None \<Rightarrow> 0 | Some m \<Rightarrow> m)
            in if Hour tz now = reminderHour \<and> Minute tz now < wrap64 (reminderMinute + 5) \<and>
                  Minute tz now \<ge> reminderMinute
               then sendDailyReminders cfg now' w
               else []))"

subsection \<open>Statistics\<close>

definition getPercentage :: "int \<Rightarrow> int \<Rightarrow> float64" where
  "getPercentage completed total' =
     (if total' = 0 then 0
      else fmul (fdiv (float64_of_int completed) (float64_of_int total')) 100)"







section \<open>Auxiliary definitions\<close>

text \<open>Names for what the properties below talk about, and the concrete inputs of their instances.\<close>

definition last30 :: "'a list \<Rightarrow> 'a list" where
  "last30 xs = drop (length xs - 30) xs"

definition calls35 :: "CheckInCall list" where
  \<comment> \<open>35 check-ins of one user, at the instants 1, 2, ..., 35.\<close>
  "calls35 =
     map (\<lambda>i. \<lparr>call_now = i, call_userID = ''u1'', call_username = ''kevin.you''\<rparr>) [1..35]"

definition config_sp0 :: Config_sp where
  \<comment> \<open>A configuration with the defaults \<^verbatim>\<open>main\<close> fills in.\<close>
  "config_sp0 =
     \<lparr>Token_sp = ''token'', StudyChannelID = ''study'', DatabasePath_sp = ''study_data.json'',
      ReminderTime_sp = ''09:00'', CheckInFrequency_sp = 24\<rparr>"

definition initial_sp :: World_sp where
  \<comment> \<open>The state after \<^verbatim>\<open>main\<close> has made the map and found no file to load.\<close>
  "initial_sp = \<lparr>database_sp = fmempty, files_sp = fmempty\<rparr>"


definition ticketsOf :: "World_mp \<Rightarrow> string \<Rightarrow> string \<Rightarrow> (string, Ticket) fmap" where
  \<comment> \<open>\<^verbatim>\<open>database.UserActivities[userID][channelID].Tickets\<close>: the tickets of a user in a
    channel, none when the user has no record there.\<close>
  "ticketsOf w userID channelID = Tickets (index2 (database_mp w) userID channelID)"

definition ticketID_of :: "nat \<Rightarrow> string" where
  "ticketID_of n = Sprintf_d (int n)"

definition idset :: "nat \<Rightarrow> string fset" where
  \<comment> \<open>The identifiers of the first \<open>n\<close> tickets.\<close>
  "idset n = ticketID_of |`| fset_of_list [1..<Suc n]"

fun isCreateFor :: "string \<Rightarrow> string \<Rightarrow> Op \<Rightarrow> bool" where
  "isCreateFor u c (CreateTicket now0 now u' c' title descr) = (u' = u \<and> c' = c)"
| "isCreateFor u c op = False"

text \<open>
  The identifiers that the calls of \<^verbatim>\<open>createTicket\<close> for one user and channel
  returned, picked from the results of a sequence of operations, in the order of the calls.
\<close>

fun createdIDs :: "string \<Rightarrow> string \<Rightarrow> Op list \<Rightarrow> Result list \<Rightarrow> string list" where
  "createdIDs u c (CreateTicket now0 now u' c' title descr # ops) (TicketID i # rs) =
     (if u' = u \<and> c' = c then i # createdIDs u c ops rs else createdIDs u c ops rs)"
| "createdIDs u c (op # ops) (r # rs) = createdIDs u c ops rs"
| "createdIDs u c ops rs = []"

definition sequential :: "World_mp \<Rightarrow> bool" where
  "sequential w = (\<forall>u c. \<exists>n. fmdom (ticketsOf w u c) = idset n)"

definition open_or_done :: "World_mp \<Rightarrow> bool" where
  "open_or_done w =
     (\<forall>u c tid t. lookupTicket w u c tid = Some t \<longrightarrow>
        Status t = ''open'' \<or> Status t = ''done'')"

definition config_mp0 :: Config_mp where
  "config_mp0 =
     \<lparr>Token_mp = ''token'', TrackedChannels = fmupd ''c1'' ''Project 1'' fmempty,
      ReminderChannelID = ''reminders'', CheckInFrequency_mp = 24, ReminderTime_mp = ''09:00'',
      DatabasePath_mp = ''accountability_data.json''\<rparr>"

definition initial_mp :: "files \<Rightarrow> World_mp" where
  \<comment> \<open>The state after \<^verbatim>\<open>main\<close> has made the map and found no file to load.\<close>
  "initial_mp fs = \<lparr>database_mp = fmempty, files_mp = fs\<rparr>"

definition reached :: "Config_mp \<Rightarrow> Op list \<Rightarrow> files \<Rightarrow> World_mp" where
  \<comment> \<open>The state a sequence of operations leads to from the empty database.\<close>
  "reached cfg ops fs = snd (run cfg ops (initial_mp fs))"

definition ops0 :: "Op list" where
  "ops0 =
     [CreateTicket 10 11 ''u1'' ''c1'' ''Login'' ''the form'',
      RecordCheckIn 12 ''u1'' ''c1'' ''Project 1'',
      CreateTicket 13 14 ''u2'' ''c1'' ''Other'' [],
      CreateTicket 15 16 ''u1'' ''c1'' ''Logout'' [],
      CompleteTicket 17 ''u1'' ''c1'' ''1'',
      ListTickets ''u1'' ''c1'',
      CreateTicket 18 19 ''u1'' ''c1'' ''Reset'' []]"

definition world1 :: World_mp where
  \<comment> \<open>One user with one open ticket.\<close>
  "world1 =
     snd (createTicket config_mp0 10 11 ''u1'' ''c1'' ''Login'' ''the form'' (initial_mp fmempty))"

definition world2 :: World_mp where
  \<comment> \<open>The same, the ticket completed at instant 17.\<close>
  "world2 = snd (completeTicket config_mp0 17 ''u1'' ''c1'' ''1'' world1)"

definition msg_kevin :: Message where
  "msg_kevin =
     \<lparr>MessageID = ''m1'', ChannelID = ''study'', Content = ''read chapter 3'',
      AuthorID = ''u1'', AuthorUsername = ''kevin.you''\<rparr>"

definition msg_other :: Message where
  "msg_other =
     \<lparr>MessageID = ''m2'', ChannelID = ''study'', Content = ''read chapter 4'',
      AuthorID = ''u2'', AuthorUsername = ''someone.else''\<rparr>"

definition t0905 :: Time where
  \<comment> \<open>09:05:00 UTC on day 20000 after the epoch\<close>
  "t0905 = (20000 * 86400 + 9 * 3600 + 5 * 60) * 1000000000"

definition t0903 :: Time where
  \<comment> \<open>09:03:00 UTC on the same day\<close>
  "t0903 = (20000 * 86400 + 9 * 3600 + 3 * 60) * 1000000000"

definition overdue_sp :: World_sp where
  \<comment> \<open>One user, whose last check-in was at 03:05 the day before.\<close>
  "overdue_sp = recordCheckIn_sp config_sp0 (t0905 - 30 * Hour_ns) ''u1'' ''kevin.you'' initial_sp"

definition overdue_mp :: World_mp where
  \<comment> \<open>One user with one channel, the last check-in at 03:05 the day before.\<close>
  "overdue_mp =
     recordCheckIn_mp config_mp0 (t0905 - 30 * Hour_ns) ''u1'' ''c1'' ''Project 1''
       (initial_mp fmempty)"













chapter \<open>Properties\<close>

section \<open>Saving leaves the database as it is\<close>

lemma database_saveDatabase_sp [simp]: "database_sp (saveDatabase_sp cfg w) = database_sp w"
  by (simp add: saveDatabase_sp_def split: option.splits)

lemma database_saveDatabase_mp [simp]: "database_mp (saveDatabase_mp cfg w) = database_mp w"
  by (simp add: saveDatabase_mp_def split: option.splits)

section \<open>Maps in key order\<close>

lemma fst_sorted_list_of_fmap: "map fst (sorted_list_of_fmap m) = sorted_list_of_fset (fmdom m)"
  by (simp add: sorted_list_of_fmap_def comp_def)

lemma distinct_sorted_list_of_fmap: "distinct (map fst (sorted_list_of_fmap m))"
  by (simp add: fst_sorted_list_of_fmap sorted_list_of_fset.rep_eq)

lemma set_sorted_list_of_fmap:
  "(k, v) \<in> set (sorted_list_of_fmap m) \<longleftrightarrow> fmlookup m k = Some v"
  using map_of_eq_Some_iff [OF distinct_sorted_list_of_fmap, of m k v]
  by simp

lemma sum_list_other_keys:
  "u \<notin> fst ` set xs \<Longrightarrow> (\<Sum>(k, v')\<leftarrow>xs. if k = u then F v' else 0) = (0::nat)"
  by (induction xs) auto

lemma sum_list_key:
  assumes "distinct (map fst xs)" and "(u, v) \<in> set xs"
  shows "(\<Sum>(k, v')\<leftarrow>xs. if k = u then F v' else 0) = (F v :: nat)"
  using assms
proof (induction xs)
  case Nil
  then show ?case by simp
next
  case (Cons x xs)
  obtain k v' where x: "x = (k, v')" by (cases x)
  show ?case
  proof (cases "k = u")
    case True
    with Cons.prems x have "u \<notin> fst ` set xs" by auto
    moreover from this Cons.prems x True have "v' = v" by force
    ultimately show ?thesis
      using x True by (simp add: sum_list_other_keys)
  next
    case False
    with Cons x show ?thesis by auto
  qed
qed

lemma length_filter_sum_list: "length (filter P xs) = (\<Sum>x\<leftarrow>xs. if P x then 1 else 0)"
  by (induction xs) auto

lemma length_filter_key:
  assumes "distinct (map fst xs)" and "(u, v) \<in> set xs"
  shows "length (filter (\<lambda>(k, v'). k = u \<and> P k v') xs) = (if P u v then 1 else 0)"
proof -
  have "length (filter (\<lambda>(k, v'). k = u \<and> P k v') xs) =
      (\<Sum>(k, v')\<leftarrow>xs. if k = u then (if P u v' then 1 else 0) else 0)"
    unfolding length_filter_sum_list
    by (rule arg_cong [where f = sum_list]) (auto simp: split_def)
  also have "\<dots> = (if P u v then 1 else 0)"
    by (rule sum_list_key [OF assms])
  finally show ?thesis .
qed

section \<open>Decimal identifiers\<close>

lemma digitVal_digit: "n < 10 \<Longrightarrow> digitVal (''0123456789'' ! n) = n"
proof -
  assume "n < 10"
  moreover have "list_all (\<lambda>n. digitVal (''0123456789'' ! n) = n) [0..<10]"
    by code_simp
  ultimately show ?thesis
    by (simp add: list_all_iff)
qed

lemma decimal_snoc: "decimal (xs @ [c]) = 10 * decimal xs + digitVal c"
  by (simp add: decimal_def)

lemma decimal_digits: "decimal (digits n) = n"
proof (induction n rule: digits.induct)
  case (1 n)
  show ?case
  proof (cases "n < 10")
    case True
    then show ?thesis
      by (subst digits.simps) (simp add: decimal_def digitVal_digit)
  next
    case False
    then have "decimal (digits (n div 10)) = n div 10"
      using "1" by simp
    with False show ?thesis
      by (subst digits.simps) (simp add: decimal_snoc digitVal_digit)
  qed
qed

lemma Sprintf_d_nat: "Sprintf_d (int n) = digits n"
  by (simp add: Sprintf_d_def)

lemma inj_ticketID_of: "inj ticketID_of"
  by (rule inj_on_inverseI [of _ decimal]) (simp add: ticketID_of_def Sprintf_d_nat decimal_digits)

lemma fset_idset: "fset (idset n) = ticketID_of ` {1..<Suc n}"
  by (simp only: idset_def fimage.rep_eq fset_of_list.rep_eq set_upt)

lemma idset_Suc: "idset (Suc n) = finsert (ticketID_of (Suc n)) (idset n)"
proof -
  have "{1..<Suc (Suc n)} = insert (Suc n) {1..<Suc n}" by auto
  then have "fset (idset (Suc n)) = fset (finsert (ticketID_of (Suc n)) (idset n))"
    by (simp only: fset_idset finsert.rep_eq image_insert)
  then show ?thesis by (simp only: fset_inject)
qed

lemma fcard_idset: "fcard (idset n) = n"
proof -
  have "card (ticketID_of ` {1..<Suc n}) = card {1..<Suc n}"
    by (intro card_image inj_on_subset [OF inj_ticketID_of]) simp
  then show ?thesis
    by (simp add: fcard.rep_eq fset_idset)
qed

lemma ticketID_of_notin_idset: "ticketID_of (Suc n) |\<notin>| idset n"
proof
  assume "ticketID_of (Suc n) |\<in>| idset n"
  then have "ticketID_of (Suc n) \<in> ticketID_of ` {1..<Suc n}"
    by (simp only: fset_idset [symmetric])
  then obtain k where k: "k \<in> {1..<Suc n}" "ticketID_of (Suc n) = ticketID_of k"
    by blast
  from k(2) have "Suc n = k"
    by (rule injD [OF inj_ticketID_of])
  with k(1) show False by simp
qed

section \<open>Rounding to binary64 is monotone\<close>

lemma bitlen_powi:
  assumes "0 < p"
  shows "(2::rat) powi (bitlen p - 1) \<le> of_int p" and "(of_int p :: rat) < 2 powi (bitlen p)"
proof -
  have b: "1 \<le> bitlen p" using assms by (auto simp: bitlen_alt_def)
  have "(2::int) ^ nat (bitlen p - 1) \<le> p" "p < 2 ^ nat (bitlen p)"
    using bitlen_bounds[OF assms] by auto
  then have "(of_int ((2::int) ^ nat (bitlen p - 1)) :: rat) \<le> of_int p" 
       "(of_int p :: rat) < of_int (2 ^ nat (bitlen p))"
    by (simp_all only: of_int_le_iff of_int_less_iff)
  then show "(2::rat) powi (bitlen p - 1) \<le> of_int p" "(of_int p :: rat) < 2 powi (bitlen p)"
    using b by (simp_all add: power_int_def)
qed

lemma ilog2_bounds:
  assumes "0 < x"
  shows "2 powi (ilog2 x) \<le> x" and "x < 2 powi (ilog2 x + 1)"
proof -
  obtain p q where pq: "quotient_of x = (p, q)" by (cases "quotient_of x")
  then have q: "0 < q" and x: "x = of_int p / of_int q"
    by (auto dest: quotient_of_denom_pos quotient_of_div)
  from assms x q have p: "0 < p"
    by (simp add: zero_less_divide_iff)
  define d where "d = bitlen p - bitlen q"
  note bp = bitlen_powi[OF p] and bq = bitlen_powi[OF q]
  have qpos: "(0::rat) < of_int q" using q by simp
  have "x < 2 powi (bitlen p) / 2 powi (bitlen q - 1)"
    unfolding x using bp bq qpos
    by (intro frac_less) (use p in auto)
  also have "\<dots> = 2 powi (bitlen p - (bitlen q - 1))"
    by (subst power_int_diff) auto
  also have "bitlen p - (bitlen q - 1) = d + 1"
    by (simp add: d_def)
  finally have up: "x < 2 powi (d + 1)" .
  have "(2::rat) powi (bitlen p - 1) / 2 powi (bitlen q) = 2 powi (bitlen p - 1 - bitlen q)"
    by (subst power_int_diff) auto
  also have "bitlen p - 1 - bitlen q = d - 1"
    by (simp add: d_def)
  finally have "2 powi (d - 1) = (2::rat) powi (bitlen p - 1) / 2 powi (bitlen q)"
    by simp
  also have "\<dots> \<le> x"
    unfolding x using bp bq qpos
    by (intro frac_le) (use p in \<open>auto simp: less_imp_le\<close>)
  finally have lo: "2 powi (d - 1) \<le> x" .
  have il: "ilog2 x = (if 2 powi d \<le> x then d else d - 1)"
    by (simp add: ilog2_def pq d_def Let_def)
  show "2 powi (ilog2 x) \<le> x" using lo by (simp add: il)
  show "x < 2 powi (ilog2 x + 1)" using up by (auto simp: il not_le)
qed


lemma powi_less_cancel:
  assumes "(2::rat) powi a < 2 powi b"
  shows "a < b"
proof (rule ccontr)
  assume "\<not> a < b"
  then have "(2::rat) powi b \<le> 2 powi a"
    by (intro power_int_increasing) auto
  with assms show False by simp
qed

lemma ilog2_mono:
  assumes "0 < x" "x \<le> y"
  shows "ilog2 x \<le> ilog2 y"
proof -
  have "(2::rat) powi (ilog2 x) < 2 powi (ilog2 y + 1)"
    using ilog2_bounds(1)[OF assms(1)] ilog2_bounds(2)[of y] assms by linarith
  then show ?thesis
    using powi_less_cancel by fastforce
qed

lemma roundeven_range: "\<lfloor>q\<rfloor> \<le> roundeven q" "roundeven q \<le> \<lfloor>q\<rfloor> + 1"
  by (simp_all add: roundeven_def Let_def)

lemma roundeven_of_int: "roundeven (of_int n) = n"
  by (simp add: roundeven_def)

lemma roundeven_ge_int:
  assumes "of_int n \<le> q"
  shows "n \<le> roundeven q"
proof -
  have "n \<le> \<lfloor>q\<rfloor>" using assms by (simp add: le_floor_iff)
  then show ?thesis using roundeven_range(1)[of q] by linarith
qed

lemma roundeven_le_int:
  assumes "q \<le> of_int n"
  shows "roundeven q \<le> n"
proof (cases "q = of_int n")
  case True
  then show ?thesis by (simp add: roundeven_of_int)
next
  case False
  with assms have "q < of_int n" by simp
  then have "\<lfloor>q\<rfloor> < n" by (simp add: floor_less_iff)
  then show ?thesis using roundeven_range(2)[of q] by linarith
qed

lemma roundeven_mono:
  assumes "a \<le> b"
  shows "roundeven a \<le> roundeven b"
proof (cases "\<lfloor>a\<rfloor> = \<lfloor>b\<rfloor>")
  case True
  with assms show ?thesis
    by (auto simp: roundeven_def Let_def)
next
  case False
  with assms have "\<lfloor>a\<rfloor> < \<lfloor>b\<rfloor>"
    using floor_mono[OF assms] by linarith
  then show ?thesis
    using roundeven_range(2)[of a] roundeven_range(1)[of b] by linarith
qed

lemma round64_pos:
  "x \<noteq> 0 \<Longrightarrow> round64 x = of_int (roundeven (x / 2 powi (expo x))) * 2 powi (expo x)"
  by (simp add: round64_def)

lemma round64_le_bound:
  assumes "0 < x" "x \<le> 2 powi k" "expo x \<le> k"
  shows "round64 x \<le> 2 powi k"
proof -
  let ?e = "expo x"
  have "x / 2 powi ?e \<le> 2 powi k / 2 powi ?e"
    using assms by (simp add: divide_right_mono)
  also have "\<dots> = 2 powi (k - ?e)"
    by (simp add: power_int_diff)
  also have "\<dots> = of_int (2 ^ nat (k - ?e))"
    using assms by (simp add: power_int_def)
  finally have "roundeven (x / 2 powi ?e) \<le> 2 ^ nat (k - ?e)"
    by (rule roundeven_le_int)
  then have "(of_int (roundeven (x / 2 powi ?e)) :: rat) \<le> of_int (2 ^ nat (k - ?e))"
    by (simp only: of_int_le_iff)
  also have "\<dots> = 2 powi (k - ?e)"
    using assms by (simp add: power_int_def)
  finally have "of_int (roundeven (x / 2 powi ?e)) * 2 powi ?e \<le> 2 powi (k - ?e) * (2::rat) powi ?e"
    by (simp add: mult_right_mono)
  also have "\<dots> = 2 powi k"
    by (simp flip: power_int_add)
  finally show ?thesis
    using assms by (simp add: round64_pos)
qed

lemma round64_ge_bound:
  assumes "0 < x" "2 powi k \<le> x" "expo x \<le> k"
  shows "2 powi k \<le> round64 x"
proof -
  let ?e = "expo x"
  have "2 powi k = 2 powi (k - ?e) * (2::rat) powi ?e"
    by (simp flip: power_int_add)
  have "(of_int (2 ^ nat (k - ?e)) :: rat) = 2 powi (k - ?e)"
    using assms by (simp add: power_int_def)
  also have "\<dots> = 2 powi k / 2 powi ?e"
    by (simp add: power_int_diff)
  also have "\<dots> \<le> x / 2 powi ?e"
    using assms by (simp add: divide_right_mono)
  finally have "2 ^ nat (k - ?e) \<le> roundeven (x / 2 powi ?e)"
    by (rule roundeven_ge_int)
  then have "(of_int (2 ^ nat (k - ?e)) :: rat) \<le> of_int (roundeven (x / 2 powi ?e))"
    by (simp only: of_int_le_iff)
  then have "2 powi (k - ?e) \<le> (of_int (roundeven (x / 2 powi ?e)) :: rat)"
    using assms by (simp add: power_int_def)
  then have "2 powi (k - ?e) * 2 powi ?e \<le> of_int (roundeven (x / 2 powi ?e)) * (2::rat) powi ?e"
    by (simp add: mult_right_mono)
  moreover have "2 powi (k - ?e) * 2 powi ?e = (2::rat) powi k"
    by (simp flip: power_int_add)
  ultimately show ?thesis
    using assms by (simp add: round64_pos)
qed

lemma round64_mono_pos:
  assumes "0 < x" "x \<le> y"
  shows "round64 x \<le> round64 y"
proof -
  have y: "0 < y" using assms by simp
  have le: "expo x \<le> expo y"
    using ilog2_mono[of x y] assms by (simp add: expo_def)
  show ?thesis
  proof (cases "expo x = expo y")
    case True
    have "x / 2 powi (expo y) \<le> y / 2 powi (expo y)"
      using assms by (simp add: divide_right_mono)
    then have "roundeven (x / 2 powi (expo y)) \<le> roundeven (y / 2 powi (expo y))"
      by (rule roundeven_mono)
    then have "(of_int (roundeven (x / 2 powi (expo y))) :: rat) \<le> of_int (roundeven (y / 2 powi (expo y)))"
      by (simp only: of_int_le_iff)
    then show ?thesis
      using assms y True by (simp add: round64_pos mult_right_mono)
  next
    case False
    with le have lt: "expo x < expo y" by simp
    define k where "k = ilog2 y"
    from lt have ey: "expo y = k - 52" and kx: "ilog2 x < k"
      using y assms by (auto simp: expo_def k_def max_def split: if_splits)
    have "x < 2 powi (ilog2 x + 1)"
      using ilog2_bounds(2)[OF assms(1)] .
    also have "\<dots> \<le> 2 powi k"
      using kx by (intro power_int_increasing) auto
    finally have xk: "x \<le> 2 powi k" by simp
    have yk: "2 powi k \<le> y"
      using ilog2_bounds(1)[OF y] by (simp add: k_def)
    have "round64 x \<le> 2 powi k"
      using assms(1) xk lt ey by (intro round64_le_bound) auto
    also have "\<dots> \<le> round64 y"
      using y yk ey by (intro round64_ge_bound) auto
    finally show ?thesis .
  qed
qed

lemma round64_nonneg: "0 \<le> x \<Longrightarrow> 0 \<le> round64 x"
  by (auto simp: round64_def intro!: mult_nonneg_nonneg roundeven_ge_int)

lemma round64_mono:
  assumes "0 \<le> x" "x \<le> y"
  shows "round64 x \<le> round64 y"
proof (cases "x = 0")
  case True
  then show ?thesis using assms round64_nonneg[of y] by (simp add: round64_def)
next
  case False
  then show ?thesis using assms by (intro round64_mono_pos) auto
qed

lemma Hours_gt_24:
  assumes "24 * Hour_ns < d"
  shows "24 < Hours d"
proof -
  define h where "h = d div Hour_ns"
  define n where "n = d mod Hour_ns"
  have dpos: "0 < d" using assms by (simp add: Hour_ns_def)
  have q: "quo d Hour_ns = h" "rem d Hour_ns = n"
    using dpos by (simp_all add: quo_def rem_def h_def n_def Hour_ns_def minus_mult_div_eq_mod)
  have n: "0 \<le> n" "n < Hour_ns" and d: "d = h * Hour_ns + n"
    by (simp_all add: n_def h_def Hour_ns_def)
  have "(24 * Hour_ns) div Hour_ns \<le> d div Hour_ns"
    using assms by (intro zdiv_mono1) (simp_all add: Hour_ns_def)
  then have h24: "24 \<le> h"
    by (simp add: h_def Hour_ns_def)
  let ?y = "fdiv (float64_of_int n) 3600000000000"
  have y0: "0 \<le> ?y"
    using n by (auto simp: fdiv_def float64_of_int_def intro!: round64_nonneg)
  show ?thesis
  proof (cases "25 \<le> h")
    case True
    have "(25::rat) = round64 25" by code_simp
    also have "\<dots> \<le> round64 (of_int h)"
      using True by (intro round64_mono) auto
    finally have "25 \<le> float64_of_int h" by (simp add: float64_of_int_def)
    then have "(25::rat) \<le> float64_of_int h + ?y" using y0 by linarith
    then have "round64 25 \<le> round64 (float64_of_int h + ?y)"
      by (intro round64_mono) auto
    moreover have "round64 25 = (25::rat)" by code_simp
    ultimately show ?thesis
      by (simp add: Hours_def q fadd_def)
  next
    case False
    with h24 have h: "h = 24" by simp
    with assms d have n1: "1 \<le> n" by (simp add: Hour_ns_def)
    have "(1::rat) = round64 1" by code_simp
    also have "\<dots> \<le> round64 (of_int n)"
      using n1 by (intro round64_mono) auto
    finally have "1 / 3600000000000 \<le> float64_of_int n / 3600000000000"
      by (simp add: float64_of_int_def divide_right_mono)
    then have "round64 (1 / 3600000000000) \<le> ?y"
      unfolding fdiv_def by (intro round64_mono) auto
    moreover have "round64 (1 / 3600000000000) = 2750977865078623 / 9903520314283042199192993792"
      by code_simp
    moreover have f24: "float64_of_int 24 = 24"
      unfolding float64_of_int_def by code_simp
    ultimately have "(24::rat) + 2750977865078623 / 9903520314283042199192993792
        \<le> float64_of_int h + ?y"
      by (simp add: h)
    then have "round64 (24 + 2750977865078623 / 9903520314283042199192993792)
        \<le> round64 (float64_of_int h + ?y)"
      by (intro round64_mono) auto
    moreover have "round64 (24 + 2750977865078623 / 9903520314283042199192993792) =
        3377699720527911 / 140737488355328"
      by code_simp
    ultimately have "(3377699720527911 / 140737488355328 :: rat) \<le> Hours d"
      by (simp add: Hours_def q fadd_def)
    then show ?thesis by simp
  qed
qed

section \<open>The capped history\<close>

lemma last30_snoc: "last30 (last30 xs @ [y]) = last30 (xs @ [y])"
proof (cases "length xs \<le> 30")
  case True
  then show ?thesis by (simp add: last30_def)
next
  case False
  then have *: "length xs - 29 = Suc (length xs - 30)"
    by arith
  from False show ?thesis
    by (simp add: last30_def * drop_Suc tl_drop)
qed

lemma history_step:
  "history_sp (recordCheckIn_sp cfg now u' n w) u =
     (if u' = u then Some (last30 (case history_sp w u of None \<Rightarrow> [now] | Some h \<Rightarrow> h @ [now]))
      else history_sp w u)"
  by (auto simp: history_sp_def recordCheckIn_sp_def last30_def Let_def
      split: option.splits)

lemma history_run:
  "history_sp (recordCheckIns_sp cfg calls w) u =
     (let ts = map call_now (filter (\<lambda>c. call_userID c = u) calls) in
      if ts = [] then history_sp w u
      else Some (last30 ((case history_sp w u of None \<Rightarrow> [] | Some h \<Rightarrow> h) @ ts)))"
proof (induction calls rule: rev_induct)
  case Nil
  then show ?case by (simp add: recordCheckIns_sp_def)
next
  case (snoc c calls)
  show ?case
    using snoc.IH
    by (auto simp: recordCheckIns_sp_def history_step Let_def last30_snoc split: option.splits)
qed

text \<open>
  Claim C1. Whatever the database held before and whatever calls for other users come in
  between: once \<^verbatim>\<open>recordCheckIn\<close> has run 35 times for a user, that user's stored
  history has exactly 30 entries, the clock readings of the last 30 of those calls in the
  order of the calls (the first five are gone).
\<close>

theorem capped_history_after_35:
  assumes "length (filter (\<lambda>c. call_userID c = u) calls) = 35"
  shows "\<exists>h. history_sp (recordCheckIns_sp cfg calls w) u = Some h \<and> length h = 30 \<and>
           h = drop 5 (map call_now (filter (\<lambda>c. call_userID c = u) calls))"
proof -
  let ?ts = "map call_now (filter (\<lambda>c. call_userID c = u) calls)"
  have len: "length ?ts = 35" using assms by simp
  then have ne: "?ts \<noteq> []" by auto
  have "last30 (old @ ?ts) = drop 5 ?ts" for old
    using len by (simp add: last30_def)
  with ne len show ?thesis
    by (simp add: history_run Let_def)
qed

theorem capped_history_after_35_witness:
  "length (filter (\<lambda>c. call_userID c = ''u1'') calls35) = 35 \<and>
   history_sp (recordCheckIns_sp config_sp0 calls35 initial_sp) ''u1'' =
     Some [6, 7, 8, 9, 10, 11, 12, 13, 14, 15, 16, 17, 18, 19, 20,
           21, 22, 23, 24, 25, 26, 27, 28, 29, 30, 31, 32, 33, 34, 35]"
proof -
  have n: "length (filter (\<lambda>c. call_userID c = ''u1'') calls35) = 35"
    by code_simp
  have d: "drop 5 (map call_now (filter (\<lambda>c. call_userID c = ''u1'') calls35)) =
      [6, 7, 8, 9, 10, 11, 12, 13, 14, 15, 16, 17, 18, 19, 20,
       21, 22, 23, 24, 25, 26, 27, 28, 29, 30, 31, 32, 33, 34, 35]"
    by code_simp
  from capped_history_after_35 [OF n, of config_sp0 initial_sp] d n show ?thesis
    by auto
qed

lemma lastCheckIn_step:
  "map_option LastCheckIn_sp (fmlookup (database_sp (recordCheckIn_sp cfg now u' n w)) u) =
     (if u' = u then Some now else map_option LastCheckIn_sp (fmlookup (database_sp w) u))"
  by (auto simp: recordCheckIn_sp_def Let_def split: option.splits)

text \<open>
  The last check-in follows the calls as well: after any sequence of calls with at least one
  for a user, the user's \<^verbatim>\<open>LastCheckIn\<close> is the clock reading of the latest of them.
\<close>

theorem last_check_in_is_latest:
  assumes "filter (\<lambda>c. call_userID c = u) calls \<noteq> []"
  shows "map_option LastCheckIn_sp (fmlookup (database_sp (recordCheckIns_sp cfg calls w)) u) =
           Some (call_now (last (filter (\<lambda>c. call_userID c = u) calls)))"
  using assms
proof (induction calls rule: rev_induct)
  case Nil
  then show ?case by simp
next
  case (snoc c calls)
  show ?case
  proof (cases "call_userID c = u")
    case True
    then show ?thesis
      by (simp add: recordCheckIns_sp_def lastCheckIn_step)
  next
    case False
    with snoc show ?thesis
      by (simp add: recordCheckIns_sp_def lastCheckIn_step)
  qed
qed

theorem last_check_in_is_latest_witness:
  "filter (\<lambda>c. call_userID c = ''u1'') calls35 \<noteq> [] \<and>
   map_option LastCheckIn_sp
     (fmlookup (database_sp (recordCheckIns_sp config_sp0 calls35 initial_sp)) ''u1'') = Some 35"
proof -
  have n: "filter (\<lambda>c. call_userID c = ''u1'') calls35 \<noteq> []"
    by code_simp
  have l: "call_now (last (filter (\<lambda>c. call_userID c = ''u1'') calls35)) = 35"
    by code_simp
  from last_check_in_is_latest [OF n, of config_sp0 initial_sp] l n show ?thesis
    by simp
qed

section \<open>The message handler of the single-project variant\<close>

lemma recordCheckIn_sp_recorded:
  "\<exists>a. fmlookup (database_sp (recordCheckIn_sp cfg now userID username w)) userID = Some a \<and>
     Username a = username \<and> LastCheckIn_sp a = now \<and> CheckIns_sp a \<noteq> [] \<and>
     last (CheckIns_sp a) = now"
  by (auto simp: recordCheckIn_sp_def Let_def split: option.splits)

text \<open>
  Claim C9. For a message that is not the bot's own: when its channel is the configured
  study channel and its author's user name is exactly \<^verbatim>\<open>kevin.you\<close>, the handler
  acknowledges the message and records a check-in for the author (afterwards the author's
  record has this clock reading as last check-in and as last entry of the history); in
  every other case the handler sends nothing and the whole state, database and files, is
  as before.
\<close>

theorem messageCreate_sp_tracks_only_kevin:
  assumes "AuthorID m \<noteq> botID"
  shows "(ChannelID m = StudyChannelID cfg \<and> AuthorUsername m = ''kevin.you'' \<longrightarrow>
           messageCreate_sp cfg botID now m w =
             ([MessageReactionAdd (ChannelID m) (MessageID m) checkMark],
              recordCheckIn_sp cfg now (AuthorID m) (AuthorUsername m) w) \<and>
           (\<exists>a. fmlookup (database_sp (snd (messageCreate_sp cfg botID now m w))) (AuthorID m) = Some a \<and>
              Username a = ''kevin.you'' \<and> LastCheckIn_sp a = now \<and>
              CheckIns_sp a \<noteq> [] \<and> last (CheckIns_sp a) = now)) \<and>
         (\<not> (ChannelID m = StudyChannelID cfg \<and> AuthorUsername m = ''kevin.you'') \<longrightarrow>
           messageCreate_sp cfg botID now m w = ([], w))"
proof (intro conjI impI)
  assume c: "ChannelID m = StudyChannelID cfg \<and> AuthorUsername m = ''kevin.you''"
  with assms show r: "messageCreate_sp cfg botID now m w =
             ([MessageReactionAdd (ChannelID m) (MessageID m) checkMark],
              recordCheckIn_sp cfg now (AuthorID m) (AuthorUsername m) w)"
    by (simp add: messageCreate_sp_def)
  show "\<exists>a. fmlookup (database_sp (snd (messageCreate_sp cfg botID now m w))) (AuthorID m) = Some a \<and>
              Username a = ''kevin.you'' \<and> LastCheckIn_sp a = now \<and>
              CheckIns_sp a \<noteq> [] \<and> last (CheckIns_sp a) = now"
    using recordCheckIn_sp_recorded [of cfg now "AuthorID m" "AuthorUsername m" w] c
    by (simp add: r)
next
  assume "\<not> (ChannelID m = StudyChannelID cfg \<and> AuthorUsername m = ''kevin.you'')"
  with assms show "messageCreate_sp cfg botID now m w = ([], w)"
    by (auto simp: messageCreate_sp_def)
qed

theorem messageCreate_sp_tracks_only_kevin_witness:
  "messageCreate_sp config_sp0 ''bot'' 100 msg_kevin initial_sp =
     ([MessageReactionAdd ''study'' ''m1'' checkMark],
      recordCheckIn_sp config_sp0 100 ''u1'' ''kevin.you'' initial_sp) \<and>
   messageCreate_sp config_sp0 ''bot'' 100 msg_other initial_sp = ([], initial_sp)"
proof -
  have k: "AuthorID msg_kevin \<noteq> ''bot''" and o: "AuthorID msg_other \<noteq> ''bot''"
    by (simp_all add: msg_kevin_def msg_other_def)
  from messageCreate_sp_tracks_only_kevin [OF k, of config_sp0 100 initial_sp]
    messageCreate_sp_tracks_only_kevin [OF o, of config_sp0 100 initial_sp]
  show ?thesis
    by (simp add: msg_kevin_def msg_other_def config_sp0_def)
qed

section \<open>What the ticket operations do to the tickets\<close>

lemma index2_store2:
  "index2 (store2 u c a db) u' c' = (if u' = u \<and> c' = c then a else index2 db u' c')"
  by (auto simp: index2_def store2_def index1_def split: option.splits)

lemma lookupTicket_ticketsOf: "lookupTicket w u c tid = fmlookup (ticketsOf w u c) tid"
  by (auto simp: lookupTicket_def ticketsOf_def index2_def index1_def zeroUserActivity_mp_def
      split: option.splits)

lemma ticketsOf_createTicket:
  "ticketsOf (snd (createTicket cfg now0 now u c title descr w)) u' c' =
     (if u' = u \<and> c' = c
      then fmupd (fst (createTicket cfg now0 now u c title descr w))
             \<lparr>ID = fst (createTicket cfg now0 now u c title descr w), Title = title,
              Description = descr, Status = ''open'', CreatedAt = now, CompletedAt = zeroTime,
              ProjectName_tk = ProjectName (index2 (database_mp (snd (createTicket cfg now0 now u c title descr w))) u c)\<rparr>
             (ticketsOf w u c)
      else ticketsOf w u' c')"
  by (auto simp: createTicket_def ticketsOf_def Let_def index2_store2
        index2_def index1_def store2_def zeroUserActivity_mp_def
      split: option.splits)

lemma fst_createTicket:
  "fst (createTicket cfg now0 now u c title descr w) = Sprintf_d (len (ticketsOf w u c) + 1)"
  by (auto simp: createTicket_def ticketsOf_def Let_def index2_store2
        index2_def index1_def store2_def zeroUserActivity_mp_def
      split: option.splits)

lemma ticketsOf_recordCheckIn:
  "ticketsOf (recordCheckIn_mp cfg now u c p w) u' c' = ticketsOf w u' c'"
  by (auto simp: recordCheckIn_mp_def ticketsOf_def Let_def index2_store2
        index2_def index1_def store2_def zeroUserActivity_mp_def
      split: option.splits)

lemma completeTicket_None:
  "lookupTicket w u c tid = None \<Longrightarrow> completeTicket cfg now u c tid w = (False, w)"
  by (auto simp: lookupTicket_def completeTicket_def split: option.splits)

lemma completeTicket_Some:
  assumes "lookupTicket w u c tid = Some t"
  shows "fst (completeTicket cfg now u c tid w) = True"
    and "ticketsOf (snd (completeTicket cfg now u c tid w)) u' c' =
     (if u' = u \<and> c' = c
      then fmupd tid (t\<lparr>Status := ''done'', CompletedAt := now\<rparr>) (ticketsOf w u c)
      else ticketsOf w u' c')"
  using assms
  by (auto simp: lookupTicket_def completeTicket_def ticketsOf_def Let_def
        index2_store2 index2_def index1_def store2_def
      split: option.splits)

section \<open>Ticket identifiers\<close>

lemma fmdom_ticketsOf_completeTicket:
  "fmdom (ticketsOf (snd (completeTicket cfg now u c tid w)) u' c') = fmdom (ticketsOf w u' c')"
proof (cases "lookupTicket w u c tid")
  case None
  then show ?thesis by (simp add: completeTicket_None)
next
  case (Some t)
  then have "tid |\<in>| fmdom (ticketsOf w u c)"
    by (simp add: lookupTicket_ticketsOf fmdomI)
  then show ?thesis
    using completeTicket_Some(2) [OF Some] by (auto simp: finsert_absorb)
qed

lemma fmdom_ticketsOf_step:
  "fmdom (ticketsOf (snd (step cfg op w)) u c) =
     (if isCreateFor u c op
      then finsert (Sprintf_d (len (ticketsOf w u c) + 1)) (fmdom (ticketsOf w u c))
      else fmdom (ticketsOf w u c))"
proof (cases op)
  case (CreateTicket now0 now u' c' title descr)
  then show ?thesis
    using ticketsOf_createTicket [of cfg now0 now u' c' title descr w u c]
    by (auto simp: split_beta fst_createTicket)
next
  case (CompleteTicket now u' c' tid)
  then show ?thesis
    using fmdom_ticketsOf_completeTicket [of cfg now u' c' tid w u c]
    by (simp add: split_beta)
next
  case (RecordCheckIn now u' c' p)
  then show ?thesis by (simp add: ticketsOf_recordCheckIn)
next
  case (ListTickets u' c')
  then show ?thesis by simp
qed

lemma len_idset: "fmdom m = idset n \<Longrightarrow> len m = int n"
  by (simp add: len_def fcard_idset)

lemma next_id: "Sprintf_d (int n + 1) = ticketID_of (Suc n)"
  by (simp add: ticketID_of_def add.commute)

lemma run_ids:
  assumes "fmdom (ticketsOf w u c) = idset n"
  shows "createdIDs u c ops (fst (run cfg ops w)) =
           map ticketID_of [Suc n..<Suc (n + length (filter (isCreateFor u c) ops))] \<and>
         fmdom (ticketsOf (snd (run cfg ops w)) u c) =
           idset (n + length (filter (isCreateFor u c) ops))"
  using assms
proof (induction ops arbitrary: w n)
  case Nil
  then show ?case by simp
next
  case (Cons op ops)
  obtain r w' where st: "step cfg op w = (r, w')" by (cases "step cfg op w")
  obtain rs w'' where rn: "run cfg ops w' = (rs, w'')" by (cases "run cfg ops w'")
  have dom': "fmdom (ticketsOf w' u c) =
     (if isCreateFor u c op then idset (Suc n) else idset n)"
    using fmdom_ticketsOf_step [of cfg op w u c] st Cons.prems
    by (simp add: len_idset idset_Suc next_id)
  show ?case
  proof (cases "isCreateFor u c op")
    case True
    then obtain now0 now title descr where op: "op = CreateTicket now0 now u c title descr"
      by (cases op) auto
    have r: "r = TicketID (ticketID_of (Suc n))"
      using st Cons.prems
      by (auto simp: op split_beta fst_createTicket len_idset next_id)
    from dom' True have "fmdom (ticketsOf w' u c) = idset (Suc n)" by simp
    from Cons.IH [OF this] rn
    have "createdIDs u c ops rs =
            map ticketID_of [Suc (Suc n)..<Suc (Suc n + length (filter (isCreateFor u c) ops))]"
      and "fmdom (ticketsOf w'' u c) = idset (Suc n + length (filter (isCreateFor u c) ops))"
      by (simp_all del: upt_Suc)
    moreover have "[Suc n..<Suc (n + Suc k)] = Suc n # [Suc (Suc n)..<Suc (Suc n + k)]" for k
      by (simp add: upt_conv_Cons del: upt_Suc)
    ultimately show ?thesis
      using st rn r by (simp add: op del: upt_Suc)
  next
    case False
    with dom' have "fmdom (ticketsOf w' u c) = idset n" by simp
    from Cons.IH [OF this] rn
    have ih: "createdIDs u c ops rs =
            map ticketID_of [Suc n..<Suc (n + length (filter (isCreateFor u c) ops))]"
      "fmdom (ticketsOf w'' u c) = idset (n + length (filter (isCreateFor u c) ops))"
      by (simp_all del: upt_Suc)
    have "createdIDs u c (op # ops) (r # rs) = createdIDs u c ops rs"
      using False by (cases op; cases r) auto
    then show ?thesis
      using st rn ih False by (simp del: upt_Suc)
  qed
qed

lemma idset_0: "idset 0 = {||}"
  by (simp add: idset_def)

text \<open>
  Claim C2. Take a user and a channel with no tickets yet (no record at all, or a record
  that only holds check-ins), and any sequence of operations from there, for any users and
  channels. The identifiers that the calls of \<^verbatim>\<open>createTicket\<close> for this user and channel
  return are the decimal strings of 1, 2, 3, ... in the order of the calls; the number of
  tickets of the pair at the end is the number of those calls; and in every state at all
  the identifier returned is the decimal string of the number of tickets the pair has,
  plus one.
\<close>

theorem createTicket_sequential_ids:
  assumes "ticketsOf w u c = fmempty"
  shows "createdIDs u c ops (fst (run cfg ops w)) =
           map (\<lambda>n. Sprintf_d (int n)) [1..<Suc (length (filter (isCreateFor u c) ops))] \<and>
         len (ticketsOf (snd (run cfg ops w)) u c) = int (length (filter (isCreateFor u c) ops)) \<and>
         (\<forall>now0 now title descr w'.
            fst (createTicket cfg now0 now u c title descr w') =
              Sprintf_d (len (ticketsOf w' u c) + 1))"
proof -
  have "fmdom (ticketsOf w u c) = idset 0"
    using assms by (simp add: idset_0)
  from run_ids [OF this, of ops cfg] show ?thesis
    by (simp add: len_idset fst_createTicket ticketID_of_def [abs_def] del: upt_Suc)
qed


lemma ticketsOf_initial: "ticketsOf (initial_mp fs) u c = fmempty"
  by (simp add: ticketsOf_def initial_mp_def index2_def index1_def zeroUserActivity_mp_def)

theorem createTicket_sequential_ids_witness:
  "ticketsOf (initial_mp fmempty) ''u1'' ''c1'' = fmempty \<and>
   createdIDs ''u1'' ''c1'' ops0 (fst (run config_mp0 ops0 (initial_mp fmempty))) =
     [''1'', ''2'', ''3'']"
proof -
  have h: "ticketsOf (initial_mp fmempty) ''u1'' ''c1'' = fmempty"
    by (rule ticketsOf_initial)
  have e: "map (\<lambda>n. Sprintf_d (int n)) [1..<Suc (length (filter (isCreateFor ''u1'' ''c1'') ops0))] =
      [''1'', ''2'', ''3'']"
    by code_simp
  from createTicket_sequential_ids [OF h, of ops0 config_mp0] e h show ?thesis
    by simp
qed

section \<open>Completing a ticket\<close>

text \<open>
  Claim C3. When the user is not in the database, or the user has no record for the
  channel, or that record has no ticket of this identifier, \<^verbatim>\<open>completeTicket\<close> returns
  \<^verbatim>\<open>false\<close> and the whole state is as before: the database, and the file system, so
  nothing was written. The result is the same pair in the three cases, so nothing tells
  them apart.
\<close>

theorem completeTicket_not_found:
  assumes "fmlookup (database_mp w) userID = None \<or>
           (\<exists>userActivities. fmlookup (database_mp w) userID = Some userActivities \<and>
              fmlookup userActivities channelID = None) \<or>
           (\<exists>userActivities activity. fmlookup (database_mp w) userID = Some userActivities \<and>
              fmlookup userActivities channelID = Some activity \<and>
              fmlookup (Tickets activity) ticketID = None)"
  shows "completeTicket cfg now userID channelID ticketID w = (False, w)"
  using assms by (auto simp: completeTicket_def)

lemma lookup_world1:
  "lookupTicket world1 ''u1'' ''c1'' ''1'' =
     Some \<lparr>ID = ''1'', Title = ''Login'', Description = ''the form'', Status = ''open'',
           CreatedAt = 11, CompletedAt = zeroTime, ProjectName_tk = ''Project 1''\<rparr>"
  by code_simp

lemma lookup_world1_2: "lookupTicket world1 ''u1'' ''c1'' ''2'' = None"
  "lookupTicket world1 ''u1'' ''c2'' ''1'' = None"
  "lookupTicket world1 ''u2'' ''c1'' ''1'' = None"
  by code_simp+

lemma lookupTicket_None_iff:
  "lookupTicket w userID channelID ticketID = None \<longleftrightarrow>
     (fmlookup (database_mp w) userID = None \<or>
           (\<exists>userActivities. fmlookup (database_mp w) userID = Some userActivities \<and>
              fmlookup userActivities channelID = None) \<or>
           (\<exists>userActivities activity. fmlookup (database_mp w) userID = Some userActivities \<and>
              fmlookup userActivities channelID = Some activity \<and>
              fmlookup (Tickets activity) ticketID = None))"
  by (auto simp: lookupTicket_def split: option.splits)

theorem completeTicket_not_found_witness:
  "completeTicket config_mp0 20 ''u2'' ''c1'' ''1'' world1 = (False, world1) \<and>
   completeTicket config_mp0 20 ''u1'' ''c2'' ''1'' world1 = (False, world1) \<and>
   completeTicket config_mp0 20 ''u1'' ''c1'' ''2'' world1 = (False, world1) \<and>
   completeTicket config_mp0 20 ''u1'' ''c1'' ''2'' (initial_mp fmempty) = (False, initial_mp fmempty)"
proof -
  have "fmlookup (database_mp (initial_mp fmempty)) ''u1'' = None"
    by (simp add: initial_mp_def)
  then show ?thesis
    using lookup_world1_2 [unfolded lookupTicket_None_iff] 
    by (simp add: completeTicket_not_found)
qed

text \<open>
  Claim C10. Completing a ticket that is already done succeeds again: the call returns
  \<^verbatim>\<open>true\<close>, and the ticket afterwards is the ticket before with \<^verbatim>\<open>CompletedAt\<close> set
  to the clock reading of this call; its status is still done and no other field changed.
\<close>

theorem completeTicket_done_again:
  assumes "lookupTicket w userID channelID ticketID = Some t" and "Status t = ''done''"
  shows "\<exists>w'. completeTicket cfg now userID channelID ticketID w = (True, w') \<and>
           lookupTicket w' userID channelID ticketID = Some (t\<lparr>CompletedAt := now\<rparr>) \<and>
           Status (t\<lparr>CompletedAt := now\<rparr>) = ''done''"
proof -
  have "t\<lparr>Status := ''done'', CompletedAt := now\<rparr> = t\<lparr>CompletedAt := now\<rparr>"
    using assms(2) by simp
  then show ?thesis
    using completeTicket_Some(1) [OF assms(1), of cfg now]
      completeTicket_Some(2) [OF assms(1), of cfg now userID channelID] assms(2)
    by (cases "completeTicket cfg now userID channelID ticketID w")
       (simp add: lookupTicket_ticketsOf)
qed


lemma lookup_world2:
  "lookupTicket world2 ''u1'' ''c1'' ''1'' =
     Some \<lparr>ID = ''1'', Title = ''Login'', Description = ''the form'', Status = ''done'',
           CreatedAt = 11, CompletedAt = 17, ProjectName_tk = ''Project 1''\<rparr>"
  using completeTicket_Some(2) [OF lookup_world1, of config_mp0 17 "''u1''" "''c1''"]
  by (simp add: world2_def lookupTicket_ticketsOf)

theorem completeTicket_done_again_witness:
  "\<exists>w'. completeTicket config_mp0 30 ''u1'' ''c1'' ''1'' world2 = (True, w') \<and>
     lookupTicket w' ''u1'' ''c1'' ''1'' =
       Some \<lparr>ID = ''1'', Title = ''Login'', Description = ''the form'', Status = ''done'',
             CreatedAt = 11, CompletedAt = 30, ProjectName_tk = ''Project 1''\<rparr>"
  using completeTicket_done_again [OF lookup_world2, of config_mp0 30]
  by simp

section \<open>The life of a ticket\<close>

lemma sequential_initial: "sequential (initial_mp fs)"
  unfolding sequential_def by (metis ticketsOf_initial idset_0 fmdom_empty)

lemma open_or_done_initial: "open_or_done (initial_mp fs)"
  by (simp add: open_or_done_def lookupTicket_ticketsOf ticketsOf_initial)

lemma sequential_step:
  assumes "sequential w"
  shows "sequential (snd (step cfg op w))"
  unfolding sequential_def
proof (intro allI)
  fix u c
  from assms obtain n where n: "fmdom (ticketsOf w u c) = idset n"
    unfolding sequential_def by blast
  show "\<exists>n. fmdom (ticketsOf (snd (step cfg op w)) u c) = idset n"
  proof (cases "isCreateFor u c op")
    case True
    then have "fmdom (ticketsOf (snd (step cfg op w)) u c) = idset (Suc n)"
      using n by (simp add: fmdom_ticketsOf_step len_idset next_id idset_Suc)
    then show ?thesis ..
  next
    case False
    then have "fmdom (ticketsOf (snd (step cfg op w)) u c) = idset n"
      using n by (simp add: fmdom_ticketsOf_step)
    then show ?thesis ..
  qed
qed

text \<open>What one operation does to the tickets that exist, and which tickets it adds.\<close>

lemma step_keeps:
  assumes "sequential w" and "lookupTicket w u c tid = Some t"
  shows "lookupTicket (snd (step cfg op w)) u c tid = Some t \<or>
         (\<exists>now. op = CompleteTicket now u c tid \<and>
            lookupTicket (snd (step cfg op w)) u c tid =
              Some (t\<lparr>Status := ''done'', CompletedAt := now\<rparr>))"
proof (cases op)
  case (CreateTicket now0 now u' c' title descr)
  show ?thesis
  proof (cases "u' = u \<and> c' = c")
    case True
    from assms(1) obtain n where n: "fmdom (ticketsOf w u c) = idset n"
      unfolding sequential_def by blast
    have "tid |\<in>| idset n"
      using assms(2) n by (metis lookupTicket_ticketsOf fmdomI)
    then have "tid \<noteq> ticketID_of (Suc n)"
      using ticketID_of_notin_idset [of n] by auto
    then show ?thesis
      using assms(2) True n ticketsOf_createTicket [of cfg now0 now u c title descr w u c]
      by (simp add: CreateTicket split_beta lookupTicket_ticketsOf fst_createTicket len_idset next_id)
  next
    case False
    then show ?thesis
      using assms(2) ticketsOf_createTicket [of cfg now0 now u' c' title descr w u c]
      by (auto simp: CreateTicket split_beta lookupTicket_ticketsOf)
  qed
next
  case (CompleteTicket now u' c' tid')
  show ?thesis
  proof (cases "lookupTicket w u' c' tid'")
    case None
    then show ?thesis
      using assms(2) by (simp add: CompleteTicket completeTicket_None)
  next
    case (Some t')
    show ?thesis
      using assms(2) Some completeTicket_Some(2) [OF Some, of cfg now u c]
      by (auto simp: CompleteTicket split_beta lookupTicket_ticketsOf)
  qed
next
  case (RecordCheckIn now u' c' p)
  then show ?thesis
    using assms(2) by (simp add: lookupTicket_ticketsOf ticketsOf_recordCheckIn)
next
  case (ListTickets u' c')
  then show ?thesis using assms(2) by simp
qed

lemma step_adds:
  assumes "lookupTicket w u c tid = None"
    and "lookupTicket (snd (step cfg op w)) u c tid = Some t'"
  shows "Status t' = ''open'' \<and> isCreateFor u c op \<and> fst (step cfg op w) = TicketID tid"
proof (cases op)
  case (CreateTicket now0 now u' c' title descr)
  then show ?thesis
    using assms ticketsOf_createTicket [of cfg now0 now u' c' title descr w u c]
    by (auto simp: split_beta lookupTicket_ticketsOf split: if_splits)
next
  case (CompleteTicket now u' c' tid')
  show ?thesis
  proof (cases "lookupTicket w u' c' tid'")
    case None
    then show ?thesis
      using assms by (simp add: CompleteTicket completeTicket_None)
  next
    case (Some t'')
    show ?thesis
      using assms Some completeTicket_Some(2) [OF Some, of cfg now u c]
      by (auto simp: CompleteTicket split_beta lookupTicket_ticketsOf split: if_splits)
  qed
next
  case (RecordCheckIn now u' c' p)
  then show ?thesis
    using assms by (simp add: lookupTicket_ticketsOf ticketsOf_recordCheckIn)
next
  case (ListTickets u' c')
  then show ?thesis using assms by simp
qed

lemma open_or_done_step:
  assumes "sequential w" and "open_or_done w"
  shows "open_or_done (snd (step cfg op w))"
  unfolding open_or_done_def
proof (intro allI impI)
  fix u c tid t'
  assume t': "lookupTicket (snd (step cfg op w)) u c tid = Some t'"
  show "Status t' = ''open'' \<or> Status t' = ''done''"
  proof (cases "lookupTicket w u c tid")
    case None
    from step_adds [OF None t'] show ?thesis by simp
  next
    case (Some t)
    with assms(2) have "Status t = ''open'' \<or> Status t = ''done''"
      unfolding open_or_done_def by blast
    then show ?thesis
      using step_keeps [OF assms(1) Some, of cfg op] t' by auto
  qed
qed

lemma invariants_run:
  assumes "sequential w" and "open_or_done w"
  shows "sequential (snd (run cfg ops w)) \<and> open_or_done (snd (run cfg ops w))"
  using assms
proof (induction ops arbitrary: w)
  case Nil
  then show ?case by simp
next
  case (Cons op ops)
  have "sequential (snd (step cfg op w))" "open_or_done (snd (step cfg op w))"
    using Cons.prems by (simp_all add: sequential_step open_or_done_step)
  from Cons.IH [OF this] show ?case
    by (simp add: split_beta)
qed

text \<open>
  Claim C6. In every state that the four operations lead to from the empty database:
  every ticket has status open or done (so never in_progress); whatever operation comes
  next, every ticket is still there afterwards, with the status it had or, when the
  operation is \<^verbatim>\<open>completeTicket\<close> for this very ticket, with status done; and a ticket that
  is there afterwards and was not there before has status open and was made by
  \<^verbatim>\<open>createTicket\<close> for its user and channel, which returned its identifier.
\<close>

theorem ticket_lifecycle:
  "(\<forall>u c tid t. lookupTicket (reached cfg ops fs) u c tid = Some t \<longrightarrow>
      Status t = ''open'' \<or> Status t = ''done'') \<and>
   (\<forall>u c tid t. lookupTicket (reached cfg ops fs) u c tid = Some t \<longrightarrow>
      (\<exists>t'. lookupTicket (snd (step cfg op (reached cfg ops fs))) u c tid = Some t' \<and>
         (Status t' = Status t \<or>
          Status t' = ''done'' \<and> (\<exists>now. op = CompleteTicket now u c tid)))) \<and>
   (\<forall>u c tid t'. lookupTicket (reached cfg ops fs) u c tid = None \<and>
      lookupTicket (snd (step cfg op (reached cfg ops fs))) u c tid = Some t' \<longrightarrow>
      Status t' = ''open'' \<and> isCreateFor u c op \<and>
      fst (step cfg op (reached cfg ops fs)) = TicketID tid)"
proof -
  have inv: "sequential (reached cfg ops fs)" "open_or_done (reached cfg ops fs)"
    using invariants_run [OF sequential_initial open_or_done_initial, of cfg ops fs]
    by (simp_all add: reached_def)
  have 1: "\<forall>u c tid t. lookupTicket (reached cfg ops fs) u c tid = Some t \<longrightarrow>
      Status t = ''open'' \<or> Status t = ''done''"
    using inv(2) unfolding open_or_done_def .
  have 2: "\<forall>u c tid t. lookupTicket (reached cfg ops fs) u c tid = Some t \<longrightarrow>
      (\<exists>t'. lookupTicket (snd (step cfg op (reached cfg ops fs))) u c tid = Some t' \<and>
         (Status t' = Status t \<or>
          Status t' = ''done'' \<and> (\<exists>now. op = CompleteTicket now u c tid)))"
  proof (intro allI impI)
    fix u c tid t
    assume "lookupTicket (reached cfg ops fs) u c tid = Some t"
    from step_keeps [OF inv(1) this, of cfg op]
    show "\<exists>t'. lookupTicket (snd (step cfg op (reached cfg ops fs))) u c tid = Some t' \<and>
         (Status t' = Status t \<or>
          Status t' = ''done'' \<and> (\<exists>now. op = CompleteTicket now u c tid))"
      by auto
  qed
  have 3: "\<forall>u c tid t'. lookupTicket (reached cfg ops fs) u c tid = None \<and>
      lookupTicket (snd (step cfg op (reached cfg ops fs))) u c tid = Some t' \<longrightarrow>
      Status t' = ''open'' \<and> isCreateFor u c op \<and>
      fst (step cfg op (reached cfg ops fs)) = TicketID tid"
    using step_adds by blast
  from 1 2 3 show ?thesis by blast
qed

theorem ticket_lifecycle_witness:
  "lookupTicket (reached config_mp0 [] fmempty) ''u1'' ''c1'' ''1'' = None \<and>
   lookupTicket world1 ''u1'' ''c1'' ''1'' =
     Some \<lparr>ID = ''1'', Title = ''Login'', Description = ''the form'', Status = ''open'',
           CreatedAt = 11, CompletedAt = zeroTime, ProjectName_tk = ''Project 1''\<rparr> \<and>
   fst (step config_mp0 (CreateTicket 10 11 ''u1'' ''c1'' ''Login'' ''the form'')
          (reached config_mp0 [] fmempty)) = TicketID ''1'' \<and>
   (\<exists>t'. lookupTicket
           (snd (step config_mp0 (CompleteTicket 17 ''u1'' ''c1'' ''1'')
                  (reached config_mp0 [CreateTicket 10 11 ''u1'' ''c1'' ''Login'' ''the form'']
                     fmempty)))
           ''u1'' ''c1'' ''1'' = Some t' \<and>
         (Status t' = ''open'' \<or> Status t' = ''done''))"
proof -
  let ?create = "CreateTicket 10 11 ''u1'' ''c1'' ''Login'' ''the form''"
  let ?complete = "CompleteTicket 17 ''u1'' ''c1'' ''1''"
  let ?t1 = "\<lparr>ID = ''1'', Title = ''Login'', Description = ''the form'', Status = ''open'',
           CreatedAt = 11, CompletedAt = zeroTime, ProjectName_tk = ''Project 1''\<rparr>"
  have r0: "reached config_mp0 [] fmempty = initial_mp fmempty"
    by (simp add: reached_def)
  have r1: "reached config_mp0 [?create] fmempty = world1"
    by (simp add: reached_def world1_def split_beta)
  have s1: "snd (step config_mp0 ?create (reached config_mp0 [] fmempty)) = world1"
    by (simp add: r0 world1_def split_beta)
  have none: "lookupTicket (reached config_mp0 [] fmempty) ''u1'' ''c1'' ''1'' = None"
    by (simp add: r0 lookupTicket_ticketsOf ticketsOf_initial)
  have some: "lookupTicket (snd (step config_mp0 ?create (reached config_mp0 [] fmempty)))
      ''u1'' ''c1'' ''1'' = Some ?t1"
    by (simp only: s1 lookup_world1)
  have some1: "lookupTicket (reached config_mp0 [?create] fmempty) ''u1'' ''c1'' ''1'' = Some ?t1"
    by (simp only: r1 lookup_world1)
  from ticket_lifecycle [of config_mp0 "[]" fmempty ?create]
  have "lookupTicket (reached config_mp0 [] fmempty) ''u1'' ''c1'' ''1'' = None \<and>
      lookupTicket (snd (step config_mp0 ?create (reached config_mp0 [] fmempty)))
        ''u1'' ''c1'' ''1'' = Some ?t1 \<longrightarrow>
      fst (step config_mp0 ?create (reached config_mp0 [] fmempty)) = TicketID ''1''"
    by blast
  with none some
  have a: "fst (step config_mp0 ?create (reached config_mp0 [] fmempty)) = TicketID ''1''"
    by blast
  from ticket_lifecycle [of config_mp0 "[?create]" fmempty ?complete]
  have "lookupTicket (reached config_mp0 [?create] fmempty) ''u1'' ''c1'' ''1'' = Some ?t1 \<longrightarrow>
      (\<exists>t'. lookupTicket (snd (step config_mp0 ?complete (reached config_mp0 [?create] fmempty)))
          ''u1'' ''c1'' ''1'' = Some t' \<and>
         (Status t' = Status ?t1 \<or>
          Status t' = ''done'' \<and> (\<exists>now. ?complete = CompleteTicket now ''u1'' ''c1'' ''1'')))"
    by blast
  with some1 obtain t' where
    t': "lookupTicket (snd (step config_mp0 ?complete (reached config_mp0 [?create] fmempty)))
          ''u1'' ''c1'' ''1'' = Some t'"
      "Status t' = Status ?t1 \<or> Status t' = ''done''"
    by blast
  from t'(2) have "Status t' = ''open'' \<or> Status t' = ''done''"
    by simp
  with t'(1) have b: "\<exists>t'. lookupTicket
           (snd (step config_mp0 ?complete (reached config_mp0 [?create] fmempty)))
           ''u1'' ''c1'' ''1'' = Some t' \<and>
         (Status t' = ''open'' \<or> Status t' = ''done'')"
    by blast
  from none lookup_world1 a b show ?thesis
    by blast
qed

section \<open>Statistics\<close>

text \<open>
  Claim C7. \<^verbatim>\<open>getPercentage(0, 0)\<close> is 0.0: a total of zero is answered before any
  division, whatever the first argument. \<^verbatim>\<open>getPercentage(3, 4)\<close> is exactly 75.0.
\<close>

theorem getPercentage_values:
  "getPercentage 0 0 = 0 \<and> (\<forall>completed. getPercentage completed 0 = 0) \<and> getPercentage 3 4 = 75"
proof -
  have "getPercentage 3 4 = 75"
    by code_simp
  then show ?thesis
    by (simp add: getPercentage_def)
qed






section \<open>Reminders\<close>

lemma wrap64_id: "- (2 ^ 63) \<le> x \<Longrightarrow> x < 2 ^ 63 \<Longrightarrow> wrap64 x = x"
  by (simp add: wrap64_def)

lemma scanNumber_range: "scanNumber neg s = Some (v, r) \<Longrightarrow> - (2 ^ 63) \<le> v \<and> v < 2 ^ 63"
  by (auto simp: scanNumber_def Let_def split: if_splits)

lemma scanInt_range: "scanInt s = Some (v, r) \<Longrightarrow> - (2 ^ 63) \<le> v \<and> v < 2 ^ 63"
  by (auto simp: scanInt_def split: list.splits if_splits dest: scanNumber_range)

lemma Minute_range: "0 \<le> Minute tz t" "Minute tz t < 60"
  by (simp_all add: Minute_def)

lemma Sub_gt:
  assumes "24 * Hour_ns < t - u"
  shows "24 * Hour_ns < Sub t u"
  using assms by (auto simp: Sub_def Hour_ns_def minDuration_def maxDuration_def)

lemma float64_of_int_24: "float64_of_int 24 = 24"
  unfolding float64_of_int_def by code_simp

lemma checkAndSendReminders_gate:
  assumes "checkAndSendReminders cfg tz now w \<noteq> []"
  shows "\<exists>h m. Sscanf_d_colon_d (ReminderTime_sp cfg) = Some (h, m) \<and> Hour tz now = h \<and>
           m \<le> Minute tz now \<and> Minute tz now \<le> m + 5"
proof -
  from assms obtain h m where p: "Sscanf_d_colon_d (ReminderTime_sp cfg) = Some (h, m)"
    by (cases "Sscanf_d_colon_d (ReminderTime_sp cfg)") (auto simp: checkAndSendReminders_def)
  with assms have g: "Hour tz now = h" "m \<le> Minute tz now" "Minute tz now \<le> wrap64 (m + 5)"
    by (auto simp: checkAndSendReminders_def split: if_splits)
  from p obtain s' r where "scanInt s' = Some (m, r)"
    by (auto simp: Sscanf_d_colon_d_def split: option.splits list.splits if_splits)
  then have "- (2 ^ 63) \<le> m"
    by (auto dest: scanInt_range)
  with g(2) Minute_range(2) [of tz now] have "wrap64 (m + 5) = m + 5"
    by (intro wrap64_id) auto
  with p g show ?thesis by auto
qed

lemma overdueUsers_count:
  assumes "fmlookup db u = Some a" and "24 * Hour_ns < now - LastCheckIn_sp a"
    and "CheckInFrequency_sp cfg = 24"
  shows "length (filter (\<lambda>(u', n, h). u' = u) (overdueUsers cfg now db)) = 1"
proof -
  have over: "float64_of_int (CheckInFrequency_sp cfg) < Hours (Sub now (LastCheckIn_sp a))"
    using Hours_gt_24 [OF Sub_gt [OF assms(2)]] assms(3) by (simp add: float64_of_int_24)
  have "length (filter (\<lambda>(u', n, h). u' = u) (overdueUsers cfg now db)) =
      length (filter (\<lambda>(k, a'). k = u \<and>
                float64_of_int (CheckInFrequency_sp cfg) < Hours (Sub now (LastCheckIn_sp a')))
         (sorted_list_of_fmap db))"
    by (simp add: overdueUsers_def filter_map comp_def split_def conj_commute)
  also have "\<dots> = 1"
    using length_filter_key [OF distinct_sorted_list_of_fmap, of u a db
        "\<lambda>k a'. float64_of_int (CheckInFrequency_sp cfg) < Hours (Sub now (LastCheckIn_sp a'))"]
      assms(1) over
    by (simp add: set_sorted_list_of_fmap)
  finally show ?thesis .
qed

lemma parse_0900: "Sscanf_d_colon_d ''09:00'' = Some (9, 0)"
  by code_simp

lemma checkAndSendReminders_0900:
  assumes "ReminderTime_sp cfg = ''09:00''"
  shows "checkAndSendReminders cfg tz now w =
     (if Hour tz now = 9 \<and> Minute tz now \<le> 5
      then map (\<lambda>(userID, username, hours). sendReminder cfg userID username hours)
             (overdueUsers cfg now (database_sp w))
      else [])"
  using Minute_range(1) [of tz now]
  by (auto simp: checkAndSendReminders_def assms parse_0900 wrap64_id)

lemma overdueRecords_count:
  assumes "fmlookup db u = Some m" and "fmlookup m c = Some a"
    and "24 * Hour_ns < now - LastCheckIn_mp a" and "CheckInFrequency_mp cfg = 24"
  shows "length (filter (\<lambda>(u', c', a'). u' = u \<and> c' = c) (overdueRecords cfg now db)) = 1"
proof -
  let ?P = "\<lambda>a'. wrap64 (CheckInFrequency_mp cfg * Hour_ns) < Sub now (LastCheckIn_mp a')"
  have w: "wrap64 (CheckInFrequency_mp cfg * Hour_ns) = 24 * Hour_ns"
    by (simp add: assms(4) Hour_ns_def wrap64_id)
  have over: "?P a"
    using Sub_gt [OF assms(3)] by (simp only: w)
  have inner: "length (filter (\<lambda>(u', c', a'). (u' = u \<and> c' = c) \<and> ?P a')
                  (map (\<lambda>(c', a'). (k, c', a')) (sorted_list_of_fmap m'))) =
      (if k = u then length (filter (\<lambda>(c', a'). c' = c \<and> ?P a') (sorted_list_of_fmap m')) else 0)"
    for k and m' :: "(string, UserActivity_mp) fmap"
    by (simp add: filter_map comp_def split_def)
  have "length (filter (\<lambda>(u', c', a'). u' = u \<and> c' = c) (overdueRecords cfg now db)) =
      (\<Sum>(k, m')\<leftarrow>sorted_list_of_fmap db.
          length (filter (\<lambda>(u', c', a'). (u' = u \<and> c' = c) \<and> ?P a')
                  (map (\<lambda>(c', a'). (k, c', a')) (sorted_list_of_fmap m'))))"
    by (simp add: overdueRecords_def filter_concat length_concat comp_def split_def conj_commute)
  also have "\<dots> = (\<Sum>(k, m')\<leftarrow>sorted_list_of_fmap db.
      if k = u then length (filter (\<lambda>(c', a'). c' = c \<and> ?P a') (sorted_list_of_fmap m')) else 0)"
    by (simp only: inner)
  also have "\<dots> = length (filter (\<lambda>(c', a'). c' = c \<and> ?P a') (sorted_list_of_fmap m))"
    by (rule sum_list_key [OF distinct_sorted_list_of_fmap])
      (simp add: set_sorted_list_of_fmap assms(1))
  also have "\<dots> = 1"
    using length_filter_key [OF distinct_sorted_list_of_fmap, of c a m "\<lambda>c'. ?P"] assms(2) over
    by (simp add: set_sorted_list_of_fmap)
  finally show ?thesis .
qed

lemma reminderRoutine_tick_gate:
  assumes "reminderRoutine_tick cfg tz now now' w \<noteq> []"
  shows "\<exists>ph pm. Split (CHR '':'') (ReminderTime_mp cfg) = [ph, pm] \<and>
           Hour tz now = (case Sscanf_d ph of None \<Rightarrow> 9 | Some h \<Rightarrow> h) \<and>
           (case Sscanf_d pm of None \<Rightarrow> 0 | Some m \<Rightarrow> m) \<le> Minute tz now \<and>
           Minute tz now < (case Sscanf_d pm of None \<Rightarrow> 0 | Some m \<Rightarrow> m) + 5"
proof -
  let ?parts = "Split (CHR '':'') (ReminderTime_mp cfg)"
  from assms have "length ?parts = 2"
    by (auto simp: reminderRoutine_tick_def Let_def split: if_splits)
  then obtain ph pm where parts: "?parts = [ph, pm]"
    by (cases ?parts; cases "tl ?parts") auto
  define m where "m = (case Sscanf_d pm of None \<Rightarrow> 0 | Some m \<Rightarrow> m)"
  from assms parts have g: "Hour tz now = (case Sscanf_d ph of None \<Rightarrow> 9 | Some h \<Rightarrow> h)"
    "m \<le> Minute tz now" "Minute tz now < wrap64 (m + 5)"
    by (auto simp: reminderRoutine_tick_def Let_def m_def split: if_splits)
  have "- (2 ^ 63) \<le> m"
  proof (cases "Sscanf_d pm")
    case None
    then show ?thesis by (simp add: m_def)
  next
    case (Some v)
    then obtain r where "scanInt pm = Some (v, r)"
      by (auto simp: Sscanf_d_def)
    then show ?thesis
      using Some by (auto simp: m_def dest: scanInt_range)
  qed
  with g(2) Minute_range(2) [of tz now] have "wrap64 (m + 5) = m + 5"
    by (intro wrap64_id) auto
  with parts g show ?thesis
    by (auto simp: m_def)
qed

lemma split_0900: "Split (CHR '':'') ''09:00'' = [''09'', ''00'']"
  by code_simp

lemma scan_09_00: "Sscanf_d ''09'' = Some 9" "Sscanf_d ''00'' = Some 0"
  by code_simp+

lemma reminderRoutine_tick_0900:
  assumes "ReminderTime_mp cfg = ''09:00''"
  shows "reminderRoutine_tick cfg tz now now' w =
     (if Hour tz now = 9 \<and> Minute tz now < 5 then sendDailyReminders cfg now' w else [])"
  using Minute_range(1) [of tz now]
  by (auto simp: reminderRoutine_tick_def assms split_0900 scan_09_00 wrap64_id Let_def)

text \<open>
  Claim C4, as the code has it. The two variants open different windows.

  Single-project variant (\<^verbatim>\<open>checkAndSendReminders\<close>): a tick sends something only when the
  hour is the configured hour and the minute lies between the configured minute and that
  plus five, both ends included. With reminder time 09:00 and frequency 24, a tick at hour
  9 and minute 0 to 5 sends one message for each call of \<^verbatim>\<open>sendReminder\<close>, and exactly
  one such call is for each user whose last check-in is more than 24 hours before the tick;
  a tick at any other hour or minute sends nothing.

  Multi-project variant (one round of \<^verbatim>\<open>reminderRoutine\<close>): a tick sends something only
  when the hour is the configured hour and the minute is at least the configured minute and
  less than that plus five. With reminder time 09:00, frequency 24 and a reminder channel
  configured, a tick at hour 9 and minute 0 to 4 sends one message for each overdue record,
  and exactly one overdue record is there for each user and channel whose last check-in is
  more than 24 hours before the clock reading of \<^verbatim>\<open>sendDailyReminders\<close>; a tick at any
  other hour or minute, minute 5 included, sends nothing.
\<close>

theorem reminder_windows:
  "(checkAndSendReminders cfg tz now w \<noteq> [] \<longrightarrow>
      (\<exists>h m. Sscanf_d_colon_d (ReminderTime_sp cfg) = Some (h, m) \<and> Hour tz now = h \<and>
         m \<le> Minute tz now \<and> Minute tz now \<le> m + 5)) \<and>
   (ReminderTime_sp cfg = ''09:00'' \<and> CheckInFrequency_sp cfg = 24 \<longrightarrow>
      (if Hour tz now = 9 \<and> Minute tz now \<le> 5
       then checkAndSendReminders cfg tz now w =
              map (\<lambda>(userID, username, hours). sendReminder cfg userID username hours)
                (overdueUsers cfg now (database_sp w)) \<and>
            (\<forall>u a. fmlookup (database_sp w) u = Some a \<and>
                    24 * Hour_ns < now - LastCheckIn_sp a \<longrightarrow>
               length (filter (\<lambda>(u', n, h). u' = u) (overdueUsers cfg now (database_sp w))) = 1)
       else checkAndSendReminders cfg tz now w = [])) \<and>
   (reminderRoutine_tick cfg' tz now now' w' \<noteq> [] \<longrightarrow>
      (\<exists>ph pm. Split (CHR '':'') (ReminderTime_mp cfg') = [ph, pm] \<and>
         Hour tz now = (case Sscanf_d ph of None \<Rightarrow> 9 | Some h \<Rightarrow> h) \<and>
         (case Sscanf_d pm of None \<Rightarrow> 0 | Some m \<Rightarrow> m) \<le> Minute tz now \<and>
         Minute tz now < (case Sscanf_d pm of None \<Rightarrow> 0 | Some m \<Rightarrow> m) + 5)) \<and>
   (ReminderTime_mp cfg' = ''09:00'' \<and> CheckInFrequency_mp cfg' = 24 \<and>
    ReminderChannelID cfg' \<noteq> [] \<longrightarrow>
      (if Hour tz now = 9 \<and> Minute tz now < 5
       then reminderRoutine_tick cfg' tz now now' w' = sendDailyReminders cfg' now' w' \<and>
            length (sendDailyReminders cfg' now' w') =
              length (overdueRecords cfg' now' (database_mp w')) \<and>
            (\<forall>u m c a. fmlookup (database_mp w') u = Some m \<and> fmlookup m c = Some a \<and>
                    24 * Hour_ns < now' - LastCheckIn_mp a \<longrightarrow>
               length (filter (\<lambda>(u', c', a'). u' = u \<and> c' = c)
                         (overdueRecords cfg' now' (database_mp w'))) = 1)
       else reminderRoutine_tick cfg' tz now now' w' = []))"
proof (intro conjI impI)
  assume "checkAndSendReminders cfg tz now w \<noteq> []"
  then show "\<exists>h m. Sscanf_d_colon_d (ReminderTime_sp cfg) = Some (h, m) \<and> Hour tz now = h \<and>
         m \<le> Minute tz now \<and> Minute tz now \<le> m + 5"
    by (rule checkAndSendReminders_gate)
next
  assume c: "ReminderTime_sp cfg = ''09:00'' \<and> CheckInFrequency_sp cfg = 24"
  then show "if Hour tz now = 9 \<and> Minute tz now \<le> 5
       then checkAndSendReminders cfg tz now w =
              map (\<lambda>(userID, username, hours). sendReminder cfg userID username hours)
                (overdueUsers cfg now (database_sp w)) \<and>
            (\<forall>u a. fmlookup (database_sp w) u = Some a \<and>
                    24 * Hour_ns < now - LastCheckIn_sp a \<longrightarrow>
               length (filter (\<lambda>(u', n, h). u' = u) (overdueUsers cfg now (database_sp w))) = 1)
       else checkAndSendReminders cfg tz now w = []"
    by (auto simp: checkAndSendReminders_0900 overdueUsers_count)
next
  assume "reminderRoutine_tick cfg' tz now now' w' \<noteq> []"
  then show "\<exists>ph pm. Split (CHR '':'') (ReminderTime_mp cfg') = [ph, pm] \<and>
         Hour tz now = (case Sscanf_d ph of None \<Rightarrow> 9 | Some h \<Rightarrow> h) \<and>
         (case Sscanf_d pm of None \<Rightarrow> 0 | Some m \<Rightarrow> m) \<le> Minute tz now \<and>
         Minute tz now < (case Sscanf_d pm of None \<Rightarrow> 0 | Some m \<Rightarrow> m) + 5"
    by (rule reminderRoutine_tick_gate)
next
  assume c: "ReminderTime_mp cfg' = ''09:00'' \<and> CheckInFrequency_mp cfg' = 24 \<and>
    ReminderChannelID cfg' \<noteq> []"
  then show "if Hour tz now = 9 \<and> Minute tz now < 5
       then reminderRoutine_tick cfg' tz now now' w' = sendDailyReminders cfg' now' w' \<and>
            length (sendDailyReminders cfg' now' w') =
              length (overdueRecords cfg' now' (database_mp w')) \<and>
            (\<forall>u m c a. fmlookup (database_mp w') u = Some m \<and> fmlookup m c = Some a \<and>
                    24 * Hour_ns < now' - LastCheckIn_mp a \<longrightarrow>
               length (filter (\<lambda>(u', c', a'). u' = u \<and> c' = c)
                         (overdueRecords cfg' now' (database_mp w'))) = 1)
       else reminderRoutine_tick cfg' tz now now' w' = []"
  proof (cases "Hour tz now = 9 \<and> Minute tz now < 5")
    case True
    have "\<forall>u m c a. fmlookup (database_mp w') u = Some m \<and> fmlookup m c = Some a \<and>
                    24 * Hour_ns < now' - LastCheckIn_mp a \<longrightarrow>
               length (filter (\<lambda>(u', c', a'). u' = u \<and> c' = c)
                         (overdueRecords cfg' now' (database_mp w'))) = 1"
      using overdueRecords_count c by blast
    with True c show ?thesis
      by (simp add: reminderRoutine_tick_0900 sendDailyReminders_def)
  next
    case False
    then have "reminderRoutine_tick cfg' tz now now' w' = []"
      using c by (simp only: reminderRoutine_tick_0900 if_False)
    with False show ?thesis
      by (simp only: if_False)
  qed
qed

lemma clock_0905: "Hour 0 t0905 = 9" "Minute 0 t0905 = 5"
  by code_simp+

lemma clock_0903: "Hour 0 t0903 = 9" "Minute 0 t0903 = 3"
  by code_simp+

lemma overdue_sp_record:
  "fmlookup (database_sp overdue_sp) ''u1'' =
     Some \<lparr>UserID = ''u1'', Username = ''kevin.you'', LastCheckIn_sp = t0905 - 30 * Hour_ns,
           CheckIns_sp = [t0905 - 30 * Hour_ns]\<rparr>"
  by (simp add: overdue_sp_def recordCheckIn_sp_def initial_sp_def Let_def)

lemma overdue_mp_record:
  "fmlookup (database_mp overdue_mp) ''u1'' =
     Some (fmupd ''c1''
       \<lparr>LastCheckIn_mp = t0905 - 30 * Hour_ns, CheckIns_mp = [t0905 - 30 * Hour_ns],
        Tickets = fmempty, ProjectName = ''Project 1''\<rparr> fmempty)"
  by (simp add: overdue_mp_def recordCheckIn_mp_def initial_mp_def Let_def
      store2_def index1_def)

theorem reminder_windows_witness:
  "checkAndSendReminders config_sp0 0 t0903 overdue_sp =
     map (\<lambda>(userID, username, hours). sendReminder config_sp0 userID username hours)
       (overdueUsers config_sp0 t0903 (database_sp overdue_sp)) \<and>
   length (filter (\<lambda>(u', n, h). u' = ''u1'')
             (overdueUsers config_sp0 t0903 (database_sp overdue_sp))) = 1 \<and>
   reminderRoutine_tick config_mp0 0 t0903 t0903 overdue_mp =
     sendDailyReminders config_mp0 t0903 overdue_mp \<and>
   length (filter (\<lambda>(u', c', a'). u' = ''u1'' \<and> c' = ''c1'')
             (overdueRecords config_mp0 t0903 (database_mp overdue_mp))) = 1"
proof -
  have late: "24 * Hour_ns < t0903 - (t0905 - 30 * Hour_ns)"
    by (simp add: t0903_def t0905_def Hour_ns_def)
  have sp: "ReminderTime_sp config_sp0 = ''09:00'' \<and> CheckInFrequency_sp config_sp0 = 24"
    by (simp add: config_sp0_def)
  have mp: "ReminderTime_mp config_mp0 = ''09:00'' \<and> CheckInFrequency_mp config_mp0 = 24 \<and>
      ReminderChannelID config_mp0 \<noteq> []"
    by (simp add: config_mp0_def)
  have c_sp: "Hour 0 t0903 = 9 \<and> Minute 0 t0903 \<le> 5"
    and c_mp: "Hour 0 t0903 = 9 \<and> Minute 0 t0903 < 5"
    by (simp_all add: clock_0903)
  note w = reminder_windows [of config_sp0 0 t0903 overdue_sp config_mp0 t0903 overdue_mp]
  note w_sp = w [THEN conjunct2, THEN conjunct1, rule_format, OF sp, unfolded if_P [OF c_sp]]
  note w_mp =
    w [THEN conjunct2, THEN conjunct2, THEN conjunct2, rule_format, OF mp, unfolded if_P [OF c_mp]]
  note 1 = w_sp [THEN conjunct1] and 2 = w_sp [THEN conjunct2]
  note 3 = w_mp [THEN conjunct1] and 4 = w_mp [THEN conjunct2, THEN conjunct2]
  from 2 overdue_sp_record late
  have 5: "length (filter (\<lambda>(u', n, h). u' = ''u1'')
             (overdueUsers config_sp0 t0903 (database_sp overdue_sp))) = 1"
    by simp
  have "fmlookup (fmupd ''c1''
       \<lparr>LastCheckIn_mp = t0905 - 30 * Hour_ns, CheckIns_mp = [t0905 - 30 * Hour_ns],
        Tickets = fmempty, ProjectName = ''Project 1''\<rparr> fmempty) ''c1'' =
      Some \<lparr>LastCheckIn_mp = t0905 - 30 * Hour_ns, CheckIns_mp = [t0905 - 30 * Hour_ns],
        Tickets = fmempty, ProjectName = ''Project 1''\<rparr>"
    by simp
  with 4 overdue_mp_record late
  have 6: "length (filter (\<lambda>(u', c', a'). u' = ''u1'' \<and> c' = ''c1'')
             (overdueRecords config_mp0 t0903 (database_mp overdue_mp))) = 1"
    by (metis UserActivity_mp.select_convs(1))
  from 1 3 5 6 show ?thesis by simp
qed

text \<open>
  The claim as it was stated fails at 09:05: for a user whose last check-in was 30 hours
  before, the single-project variant sends the reminder and the multi-project variant,
  with its reminder channel configured, sends nothing. So whichever of the two the window
  09:00 to 09:05 is read to be, with or without its last minute, one of the two functions
  the claim is about does not keep it.
\<close>

theorem reminder_window_counterexample:
  "Hour 0 t0905 = 9 \<and> Minute 0 t0905 = 5 \<and>
   fmlookup (database_sp overdue_sp) ''u1'' =
     Some \<lparr>UserID = ''u1'', Username = ''kevin.you'', LastCheckIn_sp = t0905 - 30 * Hour_ns,
           CheckIns_sp = [t0905 - 30 * Hour_ns]\<rparr> \<and>
   checkAndSendReminders config_sp0 0 t0905 overdue_sp =
     [sendReminder config_sp0 ''u1'' ''kevin.you'' 30] \<and>
   fmlookup (database_mp overdue_mp) ''u1'' =
     Some (fmupd ''c1''
       \<lparr>LastCheckIn_mp = t0905 - 30 * Hour_ns, CheckIns_mp = [t0905 - 30 * Hour_ns],
        Tickets = fmempty, ProjectName = ''Project 1''\<rparr> fmempty) \<and>
   ReminderTime_mp config_mp0 = ''09:00'' \<and> CheckInFrequency_mp config_mp0 = 24 \<and>
   ReminderChannelID config_mp0 = ''reminders'' \<and>
   reminderRoutine_tick config_mp0 0 t0905 t0905 overdue_mp = []"
proof -
  have "checkAndSendReminders config_sp0 0 t0905 overdue_sp =
     [sendReminder config_sp0 ''u1'' ''kevin.you'' 30]"
    by code_simp
  moreover have "reminderRoutine_tick config_mp0 0 t0905 t0905 overdue_mp = []"
    by (simp add: reminderRoutine_tick_0900 config_mp0_def clock_0905)
  ultimately show ?thesis
    using clock_0905 overdue_sp_record overdue_mp_record by (simp add: config_mp0_def)
qed

section \<open>Saving and loading\<close>






lemma those_unmarshal_Time: "those (map (unmarshal_Time \<circ> JTime) ts) = Some ts"
  by (induction ts) auto

lemma unmarshal_Times_marshal: "unmarshal_Times (JArray (map JTime ts)) = Some ts"
  by (simp add: those_unmarshal_Time)















end
